theory Spec2Isabelle
  imports Complex_Main
begin

section \<open>Values\<close>

text \<open>
  The dashboard (\<^verbatim>\<open>app.py\<close>) works on pandas data frames. A frame is modelled row-major:
  the list of column labels (labels may repeat, as they can in pandas after a rename) and
  the list of rows, each row holding one cell per label. A cell is null (None, NaN or NaT),
  a number, a string or a timestamp. Numbers are exact rationals: float rounding, overflow
  and signed zero are outside the model. Strings are byte strings; the three non-ASCII
  texts of the program are written as their UTF-8 bytes.
\<close>

datatype timestamp = Timestamp (ts_year: int) (ts_weekday: nat) (ts_hour: nat)

datatype cell = Null | Num rat | Str string | Ts timestamp

datatype pyfloat = NaN | Infinity bool | Fin rat

datatype error =
    UnsupportedFormat
  | ParserError string
  | KeyError string
  | ValueError
  | TypeError
  | AttributeError
  | FrameMask

record DataFrame =
  columns :: "string list"
  rows :: "cell list list"

definition empty_frame :: DataFrame where
  "empty_frame = \<lparr>columns = [], rows = []\<rparr>"

definition wf_frame :: "DataFrame \<Rightarrow> bool" where
  "wf_frame df = list_all (\<lambda>r. length r = length (columns df)) (rows df)"

definition is_empty :: "DataFrame \<Rightarrow> bool" where
  "is_empty df = (rows df = [] \<or> columns df = [])"

definition and_then :: "error + 'a \<Rightarrow> ('a \<Rightarrow> error + 'b) \<Rightarrow> error + 'b" where
  "and_then m f = (case m of Inl e \<Rightarrow> Inl e | Inr x \<Rightarrow> f x)"

section \<open>Strings\<close>

text \<open>\<^verbatim>\<open>str.lower\<close> on ASCII letters; every other byte is kept.\<close>

definition lower_char :: "char \<Rightarrow> char" where
  "lower_char c =
     (case map_of (zip ''ABCDEFGHIJKLMNOPQRSTUVWXYZ'' ''abcdefghijklmnopqrstuvwxyz'') c of
        Some l \<Rightarrow> l
      | None \<Rightarrow> c)"

definition lower :: "string \<Rightarrow> string" where
  "lower s = map lower_char s"

definition endswith :: "string \<Rightarrow> string \<Rightarrow> bool" where
  "endswith s suf = (length suf \<le> length s \<and> drop (length s - length suf) s = suf)"

text \<open>\<^verbatim>\<open>str.replace(old, new)\<close> for one-character \<open>old\<close> and \<open>new\<close>.\<close>

definition replace_char :: "char \<Rightarrow> char \<Rightarrow> string \<Rightarrow> string" where
  "replace_char old new s = map (\<lambda>c. if c = old then new else c) s"

definition em_dash :: string where
  "em_dash = [CHR 0xE2, CHR 0x80, CHR 0x94]"

definition Annee :: string where
  "Annee = ''Ann'' @ [CHR 0xC3, CHR 0xA9] @ ''e''"

definition REQUIRED_COLUMNS :: "string list" where
  "REQUIRED_COLUMNS =
     [''category_id'', ''views'', ''Taux d'engagement (%)'', ''Engagement total'',
      ''channel'', ''published_at'']"

section \<open>Formatter\<close>

definition digit_char :: "nat \<Rightarrow> char" where
  "digit_char n = ''0123456789'' ! n"

function dec_digits :: "nat \<Rightarrow> string" where
  "dec_digits n =
     (if n < 10 then [digit_char n]
      else dec_digits (n div 10) @ [digit_char (n mod 10)])"
  by pat_completeness auto
termination
  by (relation "measure (\<lambda>n. n)") auto

declare dec_digits.simps [simp del]

text \<open>Thousands grouping of the format specifier \<^verbatim>\<open>,\<close>, on the reversed digit string.\<close>

fun group3 :: "string \<Rightarrow> string" where
  "group3 (a # b # c # d # ds) = a # b # c # CHR '','' # group3 (d # ds)"
| "group3 ds = ds"

definition grouped :: "nat \<Rightarrow> string" where
  "grouped n = rev (group3 (rev (dec_digits n)))"

text \<open>\<^verbatim>\<open>f"{n_int:,}"\<close> for a Python integer.\<close>

definition format_comma_int :: "int \<Rightarrow> string" where
  "format_comma_int n = (if n < 0 then ''-'' else []) @ grouped (nat \<bar>n\<bar>)"

text \<open>Python's \<^verbatim>\<open>round(x)\<close> on a float: to the nearest integer, ties to the even one.\<close>

definition round_half_even :: "rat \<Rightarrow> int" where
  "round_half_even r =
     (let f = \<lfloor>r\<rfloor>; d = r - of_int f in
      if d < 1 / 2 then f else if 1 / 2 < d then f + 1 else if even f then f else f + 1)"

text \<open>
  \<^verbatim>\<open>"{:,.<d>f}".format(x)\<close> for a finite float: the exact value rounded to \<open>d\<close> decimals
  (ties to even), the sign kept even when the digits are all zero.
\<close>

definition format_comma_fixed :: "rat \<Rightarrow> nat \<Rightarrow> string" where
  "format_comma_fixed r d =
     (let scaled = nat (round_half_even (\<bar>r\<bar> * 10 ^ d));
          fd = dec_digits (scaled mod 10 ^ d)
      in (if r < 0 then ''-'' else []) @ grouped (scaled div 10 ^ d) @
         (if d = 0 then [] else ''.'' @ replicate (d - length fd) CHR ''0'' @ fd))"

definition isna :: "pyfloat \<Rightarrow> bool" where
  "isna n = (n = NaN)"

text \<open>
  \<^verbatim>\<open>_fr_int\<close>: an infinite argument makes \<^verbatim>\<open>int(round(float(n)))\<close> raise OverflowError,
  which the \<^verbatim>\<open>except\<close> clause turns into the placeholder.
\<close>

definition fr_int :: "pyfloat \<Rightarrow> string" where
  "fr_int n =
     (if isna n then em_dash
      else case n of
             Fin r \<Rightarrow> replace_char CHR '','' CHR '' '' (format_comma_int (round_half_even r))
           | _ \<Rightarrow> em_dash)"

text \<open>
  \<^verbatim>\<open>_fr_float\<close>: a negative \<^verbatim>\<open>decimals\<close> makes the format specifier invalid (ValueError,
  caught by the \<^verbatim>\<open>except\<close> clause).
\<close>

definition fr_float :: "pyfloat \<Rightarrow> int \<Rightarrow> string" where
  "fr_float n decimals =
     (if isna n then em_dash
      else if decimals < 0 then em_dash
      else let fmt = (case n of
                        Fin r \<Rightarrow> format_comma_fixed r (nat decimals)
                      | Infinity neg \<Rightarrow> (if neg then ''-inf'' else ''inf'')
                      | NaN \<Rightarrow> ''nan'')
           in replace_char CHR ''X'' CHR '' ''
                (replace_char CHR ''.'' CHR '',''
                  (replace_char CHR '','' CHR ''X'' fmt)))"

section \<open>Schema normalizer\<close>

text \<open>The dictionary \<^verbatim>\<open>rename_map\<close> of \<^verbatim>\<open>normalize_columns\<close>, in insertion order.\<close>

definition rename_map :: "(string \<times> string) list" where
  "rename_map =
     [(''taux_engagement'', ''Taux d'engagement (%)''),
      (''taux d'engagement (%)'', ''Taux d'engagement (%)''),
      (''engagement_total'', ''Engagement total''),
      (''engagement total'', ''Engagement total''),
      (''publishedAt'', ''published_at''),
      (''published_at'', ''published_at''),
      (''date_publication'', ''published_at''),
      (''categorie_id'', ''category_id''),
      (''categoryId'', ''category_id''),
      (''vues'', ''views''),
      (''views'', ''views''),
      (''chaine'', ''channel''),
      (''channel'', ''channel''),
      (''jour de la semaine'', ''Jour de la semaine''),
      (''Jour de la semaine'', ''Jour de la semaine''),
      (''heure'', ''Heure''),
      (''Heure'', ''Heure''),
      (''category_name'', ''cats.name''),
      (''categorie'', ''cats.name''),
      (''cats.name'', ''cats.name'')]"

text \<open>\<^verbatim>\<open>{c.lower(): c for c in df.columns}\<close>: a later column overwrites an earlier one.\<close>

definition lower_to_actual :: "string list \<Rightarrow> (string \<rightharpoonup> string)" where
  "lower_to_actual cols = foldl (\<lambda>m c. m(lower c \<mapsto> c)) Map.empty cols"

text \<open>The loop that fills \<^verbatim>\<open>final_rename\<close>, over any list of entries.\<close>

definition final_rename_of ::
    "(string \<times> string) list \<Rightarrow> (string \<rightharpoonup> string) \<Rightarrow> (string \<rightharpoonup> string)" where
  "final_rename_of entries lta =
     foldl (\<lambda>fr (k, v). case lta k of None \<Rightarrow> fr | Some a \<Rightarrow> fr(a \<mapsto> v)) Map.empty entries"

definition final_rename :: "string list \<Rightarrow> (string \<rightharpoonup> string)" where
  "final_rename cols = final_rename_of rename_map (lower_to_actual cols)"

text \<open>\<^verbatim>\<open>df.rename(columns=m)\<close>: every label is looked up on its own; the cells stay.\<close>

definition rename :: "(string \<rightharpoonup> string) \<Rightarrow> DataFrame \<Rightarrow> DataFrame" where
  "rename m df = df\<lparr>columns := map (\<lambda>c. case m c of None \<Rightarrow> c | Some v \<Rightarrow> v) (columns df)\<rparr>"

definition normalize_columns :: "DataFrame \<Rightarrow> DataFrame" where
  "normalize_columns df = rename (final_rename (columns df)) df"

text \<open>
  What the three steps of \<^verbatim>\<open>normalize_columns\<close> do to one label: it is renamed when it is
  the column recorded for its lower-cased name and that name is a key of \<^verbatim>\<open>rename_map\<close>
  (lemma \<open>normalize_columns_eq\<close> below).
\<close>

definition rho :: "string list \<Rightarrow> string \<Rightarrow> string" where
  "rho cols c =
     (if lower_to_actual cols (lower c) = Some c
      then (case map_of (rev rename_map) (lower c) of None \<Rightarrow> c | Some v \<Rightarrow> v) else c)"

text \<open>The canonical labels: the targets of \<^verbatim>\<open>rename_map\<close>, the required columns and the year.\<close>

definition canonical_columns :: "string list" where
  "canonical_columns = REQUIRED_COLUMNS @ [Annee, ''Jour de la semaine'', ''Heure'', ''cats.name'']"

section \<open>Column access\<close>

text \<open>
  \<^verbatim>\<open>df[col]\<close> raises KeyError when no column has the label, gives a Series when exactly one
  has it and a DataFrame when several have it. A row's cell under a label is the cell of the
  first column carrying it.
\<close>

datatype selection = Missing | Series "cell list" | Frame

definition lookup_cell :: "string list \<Rightarrow> cell list \<Rightarrow> string \<Rightarrow> cell" where
  "lookup_cell cols r col = (case map_of (zip cols r) col of None \<Rightarrow> Null | Some c \<Rightarrow> c)"

definition getitem :: "DataFrame \<Rightarrow> string \<Rightarrow> selection" where
  "getitem df col =
     (let n = count_list (columns df) col in
      if n = 0 then Missing
      else if n = 1 then Series (map (\<lambda>r. lookup_cell (columns df) r col) (rows df))
      else Frame)"

text \<open>
  \<^verbatim>\<open>df[col] = values\<close>: a new label is appended as the last column, an existing label has
  its cells replaced; values of the wrong length raise ValueError.
\<close>

definition setitem :: "DataFrame \<Rightarrow> string \<Rightarrow> cell list \<Rightarrow> error + DataFrame" where
  "setitem df col vals =
     (if length vals \<noteq> length (rows df) then Inl ValueError
      else if col \<in> set (columns df) then
        Inr (df\<lparr>rows := map (\<lambda>(r, v). map (\<lambda>(n, c). if n = col then v else c) (zip (columns df) r))
                             (zip (rows df) vals)\<rparr>)
      else
        Inr \<lparr>columns = columns df @ [col], rows = map (\<lambda>(r, v). r @ [v]) (zip (rows df) vals)\<rparr>)"

section \<open>Loader\<close>

text \<open>
  What pandas does with file contents and with text is not part of the program; it is a
  parameter of the model: the two file readers (a failure carries pandas' message),
  \<^verbatim>\<open>to_datetime(..., errors="coerce", utc=True).dt.tz_convert(None)\<close> on a Series (\<open>None\<close>
  is NaT) and the number read from a text cell by \<^verbatim>\<open>to_numeric(..., errors="coerce")\<close>.
\<close>

record uploaded_file =
  name :: string
  payload :: string

record pandas =
  read_csv :: "uploaded_file \<Rightarrow> string + DataFrame"
  read_parquet :: "uploaded_file \<Rightarrow> string + DataFrame"
  to_datetime :: "cell list \<Rightarrow> timestamp option list"
  text_to_numeric :: "string \<Rightarrow> rat option"

definition ts_cell :: "timestamp option \<Rightarrow> cell" where
  "ts_cell t = (case t of None \<Rightarrow> Null | Some x \<Rightarrow> Ts x)"

text \<open>Lines 185-186. \<^verbatim>\<open>to_datetime\<close> on a DataFrame (a repeated label) raises ValueError.\<close>

definition parse_published_at :: "pandas \<Rightarrow> DataFrame \<Rightarrow> error + DataFrame" where
  "parse_published_at P df =
     (if ''published_at'' \<in> set (columns df) then
        (case getitem df ''published_at'' of
           Series xs \<Rightarrow> setitem df ''published_at'' (map ts_cell (to_datetime P xs))
         | Frame \<Rightarrow> Inl ValueError
         | Missing \<Rightarrow> Inl (KeyError ''published_at''))
      else Inr df)"

text \<open>The accessors \<^verbatim>\<open>.dt.year\<close>, \<^verbatim>\<open>.dt.weekday.map(fr_weekdays)\<close> and \<^verbatim>\<open>.dt.hour\<close>, cell by cell.\<close>

definition fr_weekdays :: "(nat \<times> string) list" where
  "fr_weekdays =
     [(0, ''Lundi''), (1, ''Mardi''), (2, ''Mercredi''), (3, ''Jeudi''),
      (4, ''Vendredi''), (5, ''Samedi''), (6, ''Dimanche'')]"

definition dt_year :: "cell \<Rightarrow> cell" where
  "dt_year c = (case c of Ts t \<Rightarrow> Num (of_int (ts_year t)) | _ \<Rightarrow> Null)"

definition dt_weekday_name :: "cell \<Rightarrow> cell" where
  "dt_weekday_name c =
     (case c of
        Ts t \<Rightarrow> (case map_of fr_weekdays (ts_weekday t) of None \<Rightarrow> Null | Some d \<Rightarrow> Str d)
      | _ \<Rightarrow> Null)"

definition dt_hour :: "cell \<Rightarrow> cell" where
  "dt_hour c = (case c of Ts t \<Rightarrow> Num (of_nat (ts_hour t)) | _ \<Rightarrow> Null)"

text \<open>One \<^verbatim>\<open>if col not in df.columns: df[col] = df["published_at"].dt...\<close> statement.\<close>

definition derive :: "string \<Rightarrow> (cell \<Rightarrow> cell) \<Rightarrow> DataFrame \<Rightarrow> error + DataFrame" where
  "derive col f df =
     (if col \<notin> set (columns df) then
        (case getitem df ''published_at'' of
           Series xs \<Rightarrow> setitem df col (map f xs)
         | Frame \<Rightarrow> Inl AttributeError
         | Missing \<Rightarrow> Inl (KeyError ''published_at''))
      else Inr df)"

text \<open>Lines 189-200.\<close>

definition derive_slicer_columns :: "DataFrame \<Rightarrow> error + DataFrame" where
  "derive_slicer_columns df =
     (if ''published_at'' \<in> set (columns df) then
        and_then (derive Annee dt_year df) (\<lambda>df1.
        and_then (derive ''Jour de la semaine'' dt_weekday_name df1) (\<lambda>df2.
        derive ''Heure'' dt_hour df2))
      else Inr df)"

text \<open>
  \<^verbatim>\<open>to_numeric(..., errors="coerce")\<close>, cell by cell. The three coerced columns never hold a
  timestamp (the only timestamp column is \<^verbatim>\<open>published_at\<close>); such a cell is made null.
\<close>

definition to_numeric_cell :: "pandas \<Rightarrow> cell \<Rightarrow> cell" where
  "to_numeric_cell P c =
     (case c of
        Num r \<Rightarrow> Num r
      | Null \<Rightarrow> Null
      | Str s \<Rightarrow> (case text_to_numeric P s of None \<Rightarrow> Null | Some r \<Rightarrow> Num r)
      | Ts t \<Rightarrow> Null)"

text \<open>Lines 203-205. \<^verbatim>\<open>to_numeric\<close> on a DataFrame (a repeated label) raises TypeError.\<close>

definition coerce :: "pandas \<Rightarrow> string \<Rightarrow> DataFrame \<Rightarrow> error + DataFrame" where
  "coerce P col df =
     (if col \<in> set (columns df) then
        (case getitem df col of
           Series xs \<Rightarrow> setitem df col (map (to_numeric_cell P) xs)
         | Frame \<Rightarrow> Inl TypeError
         | Missing \<Rightarrow> Inl (KeyError col))
      else Inr df)"

fun coerce_loop :: "pandas \<Rightarrow> string list \<Rightarrow> DataFrame \<Rightarrow> error + DataFrame" where
  "coerce_loop P [] df = Inr df"
| "coerce_loop P (col # cols) df = and_then (coerce P col df) (coerce_loop P cols)"

text \<open>Lines 182-207 of \<^verbatim>\<open>load_data\<close>: everything after the file has been read.\<close>

definition prepare :: "pandas \<Rightarrow> DataFrame \<Rightarrow> error + DataFrame" where
  "prepare P df =
     and_then (parse_published_at P (normalize_columns df)) (\<lambda>df1.
     and_then (derive_slicer_columns df1) (\<lambda>df2.
     coerce_loop P [''views'', ''Taux d'engagement (%)'', ''Engagement total''] df2))"

text \<open>
  \<^verbatim>\<open>load_data\<close>. The ValueError of line 180 is the constructor \<open>UnsupportedFormat\<close>; it is
  told apart from pandas' own ValueErrors by its message.
\<close>

definition load_data :: "pandas \<Rightarrow> uploaded_file option \<Rightarrow> error + DataFrame" where
  "load_data P uploaded =
     (case uploaded of
        None \<Rightarrow> Inr empty_frame
      | Some f \<Rightarrow>
          (let nm = lower (name f) in
           if endswith nm ''.csv'' then
             (case read_csv P f of Inl msg \<Rightarrow> Inl (ParserError msg) | Inr df \<Rightarrow> prepare P df)
           else if endswith nm ''.parquet'' then
             (case read_parquet P f of Inl msg \<Rightarrow> Inl (ParserError msg) | Inr df \<Rightarrow> prepare P df)
           else Inl UnsupportedFormat))"

section \<open>Slicers and filter block\<close>

text \<open>
  Lines 274-297 compute the options of the five slicers from the unfiltered frame:
  \<^verbatim>\<open>df.get(col, empty).dropna().unique()\<close>. On a repeated label \<^verbatim>\<open>df.get\<close> gives a
  DataFrame, which has no \<^verbatim>\<open>unique\<close>: AttributeError. The options feed the widgets only;
  their sorting and the conversion of the hours to \<^verbatim>\<open>int\<close> (which fail on options of mixed
  or non-numeric types) are not modelled.
\<close>

definition dropna :: "cell list \<Rightarrow> cell list" where
  "dropna xs = filter (\<lambda>c. c \<noteq> Null) xs"

definition unique :: "cell list \<Rightarrow> cell list" where
  "unique xs = rev (remdups (rev xs))"

definition facet_options :: "DataFrame \<Rightarrow> string \<Rightarrow> error + cell list" where
  "facet_options df col =
     (case getitem df col of
        Missing \<Rightarrow> Inr []
      | Series xs \<Rightarrow> Inr (unique (dropna xs))
      | Frame \<Rightarrow> Inl AttributeError)"

definition weekdays :: "string list" where
  "weekdays = [''Lundi'', ''Mardi'', ''Mercredi'', ''Jeudi'', ''Vendredi'', ''Samedi'', ''Dimanche'']"

definition slicers :: "DataFrame \<Rightarrow> error + cell list list" where
  "slicers df =
     and_then (facet_options df Annee) (\<lambda>years.
     and_then (facet_options df ''cats.name'') (\<lambda>cats.
     and_then (facet_options df ''channel'') (\<lambda>channels.
     and_then (facet_options df ''Jour de la semaine'') (\<lambda>days.
     and_then (facet_options df ''Heure'') (\<lambda>hours.
       Inr [years, cats, channels,
            map Str (filter (\<lambda>d. Str d \<in> set days) weekdays), hours])))))"

text \<open>The selections made in the five multiselect widgets.\<close>

record selections =
  year_sel :: "cell list"
  cat_sel :: "cell list"
  ch_sel :: "cell list"
  day_sel :: "cell list"
  hour_sel :: "cell list"

definition isin :: "cell list \<Rightarrow> cell list \<Rightarrow> bool list" where
  "isin xs sel = map (\<lambda>x. x \<in> set sel) xs"

text \<open>\<^verbatim>\<open>fdf[mask]\<close> with a boolean Series: the rows whose mask entry is true, in order.\<close>

definition bool_index :: "DataFrame \<Rightarrow> bool list \<Rightarrow> DataFrame" where
  "bool_index fdf keep = fdf\<lparr>rows := map snd (filter fst (zip keep (rows fdf)))\<rparr>"

text \<open>
  One statement \<^verbatim>\<open>if sel and col in fdf.columns: fdf = fdf[fdf[col].isin(sel)]\<close>. With a
  repeated label the mask is a DataFrame and pandas masks cells instead of selecting rows;
  that is not modelled (\<open>FrameMask\<close>). The page never gets there: the slicer lines fail
  first on such a frame.
\<close>

definition apply_facet :: "cell list \<Rightarrow> string \<Rightarrow> DataFrame \<Rightarrow> error + DataFrame" where
  "apply_facet sel col fdf =
     (if sel \<noteq> [] \<and> col \<in> set (columns fdf) then
        (case getitem fdf col of
           Series xs \<Rightarrow> Inr (bool_index fdf (isin xs sel))
         | Frame \<Rightarrow> Inl FrameMask
         | Missing \<Rightarrow> Inl (KeyError col))
      else Inr fdf)"

text \<open>Lines 299-310.\<close>

definition filter_block :: "selections \<Rightarrow> DataFrame \<Rightarrow> error + DataFrame" where
  "filter_block s df =
     and_then (apply_facet (year_sel s) Annee df) (\<lambda>f1.
     and_then (apply_facet (cat_sel s) ''cats.name'' f1) (\<lambda>f2.
     and_then (apply_facet (ch_sel s) ''channel'' f2) (\<lambda>f3.
     and_then (apply_facet (day_sel s) ''Jour de la semaine'' f3) (\<lambda>f4.
     apply_facet (hour_sel s) ''Heure'' f4))))"

text \<open>
  The filter engine as the specification words it: a row is kept when, for every facet
  with a selection and a column, its cell is one of the selected values.
\<close>

definition facet_ok :: "DataFrame \<Rightarrow> cell list \<times> string \<Rightarrow> cell list \<Rightarrow> bool" where
  "facet_ok df = (\<lambda>(sel, col) r.
     sel = [] \<or> col \<notin> set (columns df) \<or> lookup_cell (columns df) r col \<in> set sel)"

definition conjunctive_filter :: "(cell list \<times> string) list \<Rightarrow> DataFrame \<Rightarrow> DataFrame" where
  "conjunctive_filter facets df =
     df\<lparr>rows := filter (\<lambda>r. list_all (\<lambda>fc. facet_ok df fc r) facets) (rows df)\<rparr>"

definition ambiguous :: "DataFrame \<Rightarrow> cell list \<times> string \<Rightarrow> bool" where
  "ambiguous df = (\<lambda>(sel, col). sel \<noteq> [] \<and> 1 < count_list (columns df) col)"

section \<open>KPI block\<close>

text \<open>
  The reductions skip nulls. After \<^verbatim>\<open>load_data\<close> the three numeric columns hold numbers
  and nulls only; a cell of another kind counts as null here.
\<close>

fun numbers :: "cell list \<Rightarrow> rat list" where
  "numbers [] = []"
| "numbers (Num r # xs) = r # numbers xs"
| "numbers (_ # xs) = numbers xs"

definition notna_sum :: "cell list \<Rightarrow> pyfloat" where
  "notna_sum xs = Fin (of_nat (length (dropna xs)))"

definition mean :: "cell list \<Rightarrow> pyfloat" where
  "mean xs = (let ns = numbers xs in if ns = [] then NaN else Fin (sum_list ns / of_nat (length ns)))"

definition sum_series :: "cell list \<Rightarrow> pyfloat" where
  "sum_series xs = Fin (sum_list (numbers xs))"

text \<open>
  \<^verbatim>\<open>fdf[col]\<close> in a card: KeyError without the column. With a repeated label the reduction
  is a Series of several values and \<^verbatim>\<open>if pd.isna(n)\<close> in the formatter raises ValueError.
\<close>

definition kpi_series :: "DataFrame \<Rightarrow> string \<Rightarrow> error + cell list" where
  "kpi_series fdf col =
     (case getitem fdf col of
        Missing \<Rightarrow> Inl (KeyError col)
      | Series xs \<Rightarrow> Inr xs
      | Frame \<Rightarrow> Inl ValueError)"

definition count_videos :: "DataFrame \<Rightarrow> error + pyfloat" where
  "count_videos fdf = and_then (kpi_series fdf ''category_id'') (\<lambda>xs. Inr (notna_sum xs))"

definition avg_views :: "DataFrame \<Rightarrow> error + pyfloat" where
  "avg_views fdf = and_then (kpi_series fdf ''views'') (\<lambda>xs. Inr (mean xs))"

definition avg_engagement :: "DataFrame \<Rightarrow> error + pyfloat" where
  "avg_engagement fdf = and_then (kpi_series fdf ''Taux d'engagement (%)'') (\<lambda>xs. Inr (mean xs))"

definition total_interactions :: "DataFrame \<Rightarrow> error + pyfloat" where
  "total_interactions fdf = and_then (kpi_series fdf ''Engagement total'') (\<lambda>xs. Inr (sum_series xs))"

text \<open>Lines 317-335: the four cards in order; the first exception ends the run.\<close>

definition kpi_block :: "DataFrame \<Rightarrow> error + string \<times> string \<times> string \<times> string" where
  "kpi_block fdf =
     and_then (count_videos fdf) (\<lambda>n1.
     and_then (avg_views fdf) (\<lambda>n2.
     and_then (avg_engagement fdf) (\<lambda>n3.
     and_then (total_interactions fdf) (\<lambda>n4.
       Inr (fr_int n1, fr_int n2, fr_float n3 2 @ '' %'', fr_int n4)))))"

section \<open>The page\<close>

datatype page = AwaitingInput | Cards "string \<times> string \<times> string \<times> string"

text \<open>Lines 250-310: the frame the KPI block sees, \<open>None\<close> after \<^verbatim>\<open>st.stop()\<close>.\<close>

definition filtered :: "selections \<Rightarrow> DataFrame \<Rightarrow> error + DataFrame option" where
  "filtered s df =
     (if is_empty df then Inr None
      else and_then (slicers df) (\<lambda>_. and_then (filter_block s df) (\<lambda>fdf. Inr (Some fdf))))"

definition render :: "pandas \<Rightarrow> uploaded_file option \<Rightarrow> selections \<Rightarrow> error + page" where
  "render P uploaded s =
     and_then (load_data P uploaded) (\<lambda>df.
     and_then (filtered s df) (\<lambda>v.
       case v of
         None \<Rightarrow> Inr AwaitingInput
       | Some fdf \<Rightarrow> and_then (kpi_block fdf) (\<lambda>k. Inr (Cards k))))"

section \<open>Notions used in the statements\<close>

text \<open>
  The labels the four cards index, in card order: the first four required columns.
\<close>

definition kpi_columns :: "string list" where
  "kpi_columns = [''category_id'', ''views'', ''Taux d'engagement (%)'', ''Engagement total'']"

text \<open>
  The three columns \<^verbatim>\<open>load_data\<close> derives from \<^verbatim>\<open>published_at\<close>, each with its accessor.
\<close>

definition derived_columns :: "(string \<times> (cell \<Rightarrow> cell)) list" where
  "derived_columns =
     [(Annee, dt_year), (''Jour de la semaine'', dt_weekday_name), (''Heure'', dt_hour)]"

text \<open>
  Two frames have the same number of rows and, row by row, the same cells under the labels
  in \<open>L\<close>.
\<close>

definition same_cells :: "string set \<Rightarrow> DataFrame \<Rightarrow> DataFrame \<Rightarrow> bool" where
  "same_cells L df df' =
     (length (rows df') = length (rows df) \<and>
      (\<forall>i < length (rows df). \<forall>l \<in> L.
         lookup_cell (columns df') (rows df' ! i) l = lookup_cell (columns df) (rows df ! i) l))"

text \<open>
  Every row's cell under \<open>c\<close> is \<open>f\<close> of its \<^verbatim>\<open>published_at\<close> cell.
\<close>

definition derived_from :: "string \<Rightarrow> (cell \<Rightarrow> cell) \<Rightarrow> DataFrame \<Rightarrow> bool" where
  "derived_from c f df =
     (c \<in> set (columns df) \<and>
      (\<forall>i < length (rows df).
         lookup_cell (columns df) (rows df ! i) c =
           f (lookup_cell (columns df) (rows df ! i) ''published_at'')))"

section \<open>The reference table of the specification\<close>

text \<open>
  The three rows of the end-to-end scenario, as \<^verbatim>\<open>read_csv\<close> hands them over, under the labels
  the program uses (\<^verbatim>\<open>Taux d'engagement (%)\<close> is the engagement rate, \<^verbatim>\<open>Engagement total\<close> the
  interactions).
\<close>

definition reference_table :: DataFrame where
  "reference_table =
     \<lparr>columns = REQUIRED_COLUMNS,
      rows =
        [[Str ''a'', Num 100, Num 2, Num 5, Str ''X'', Str ''2024-01-01T10:00:00Z''],
         [Null, Num 200, Num 4, Num 15, Str ''Y'', Str ''2024-06-01T10:00:00Z''],
         [Str ''c'', Null, Null, Num 0, Str ''X'', Str ''2023-01-01T10:00:00Z'']]\<rparr>"

definition reference_dates :: "cell list" where
  "reference_dates =
     [Str ''2024-01-01T10:00:00Z'', Str ''2024-06-01T10:00:00Z'', Str ''2023-01-01T10:00:00Z'']"

text \<open>
  A stand-in for pandas on this data: it reads the reference table from any CSV upload and
  turns the three timestamps into 1 January 2024 (a Monday), 1 June 2024 (a Saturday) and
  1 January 2023 (a Sunday), each at 10 o'clock; any other value is unparseable.
\<close>

definition reference_datetime :: "cell \<Rightarrow> timestamp option" where
  "reference_datetime c =
     (if c = Str ''2024-01-01T10:00:00Z'' then Some (Timestamp 2024 0 10)
      else if c = Str ''2024-06-01T10:00:00Z'' then Some (Timestamp 2024 5 10)
      else if c = Str ''2023-01-01T10:00:00Z'' then Some (Timestamp 2023 6 10)
      else None)"

definition reference_pandas :: pandas where
  "reference_pandas =
     \<lparr>read_csv = (\<lambda>f. Inr reference_table),
      read_parquet = (\<lambda>f. Inl ''not a parquet file''),
      to_datetime = map reference_datetime,
      text_to_numeric = (\<lambda>s. None)\<rparr>"

definition no_selection :: selections where
  "no_selection = \<lparr>year_sel = [], cat_sel = [], ch_sel = [], day_sel = [], hour_sel = []\<rparr>"

text \<open>
  The reference table after \<^verbatim>\<open>load_data\<close>, for the timestamps pandas returns.
\<close>

definition reference_loaded :: "timestamp \<Rightarrow> timestamp \<Rightarrow> timestamp \<Rightarrow> DataFrame" where
  "reference_loaded t1 t2 t3 =
     \<lparr>columns = REQUIRED_COLUMNS @ [Annee, ''Jour de la semaine'', ''Heure''],
      rows =
        [[Str ''a'', Num 100, Num 2, Num 5, Str ''X'', Ts t1,
          dt_year (Ts t1), dt_weekday_name (Ts t1), dt_hour (Ts t1)],
         [Null, Num 200, Num 4, Num 15, Str ''Y'', Ts t2,
          dt_year (Ts t2), dt_weekday_name (Ts t2), dt_hour (Ts t2)],
         [Str ''c'', Null, Null, Num 0, Str ''X'', Ts t3,
          dt_year (Ts t3), dt_weekday_name (Ts t3), dt_hour (Ts t3)]]\<rparr>"

section \<open>Theorems\<close>

subsection \<open>Formatter\<close>

lemma floor_rat_numeral_div [simp]:
  "\<lfloor>numeral a / numeral b :: rat\<rfloor> = numeral a div numeral b"
  by (metis floor_divide_of_int_eq of_int_numeral)

text \<open>
  C8. The integer formatter turns 12345 into \<open>12 345\<close> and a null (NaN) input into the
  em-dash placeholder; the decimal formatter with two decimals turns 12345.6 into
  \<open>12 345,60\<close>, both for the exact decimal and for the binary double nearest to it.
\<close>

theorem formatter_examples:
  "fr_int (Fin 12345) = ''12 345'' \<and>
   fr_int NaN = em_dash \<and>
   fr_float (Fin (123456 / 10)) 2 = ''12 345,60'' \<and>
   fr_float (Fin (6787065375935693 / 549755813888)) 2 = ''12 345,60''"
  by (simp add: fr_int_def fr_float_def isna_def format_comma_int_def format_comma_fixed_def
      grouped_def round_half_even_def replace_char_def digit_char_def dec_digits.simps Let_def)

subsection \<open>Schema normalizer\<close>

lemma lower_char_idem: "lower_char (lower_char c) = lower_char c"
  by (simp add: lower_char_def)

lemma lower_idem: "lower (lower s) = lower s"
  by (simp add: lower_def lower_char_idem)

lemma lower_to_actual_Nil: "lower_to_actual [] = Map.empty"
  by (simp add: lower_to_actual_def)

lemma lower_to_actual_snoc:
  "lower_to_actual (cols @ [c]) = (lower_to_actual cols)(lower c \<mapsto> c)"
  by (simp add: lower_to_actual_def)

lemma lower_to_actual_Some:
  "lower_to_actual cols k = Some a \<Longrightarrow> a \<in> set cols \<and> lower a = k"
  by (induction cols rule: rev_induct)
     (auto simp: lower_to_actual_snoc lower_to_actual_Nil split: if_splits)

lemma lower_to_actual_present:
  "c \<in> set cols \<Longrightarrow> \<exists>a. lower_to_actual cols (lower c) = Some a"
  by (induction cols rule: rev_induct) (auto simp: lower_to_actual_snoc lower_to_actual_Nil)

lemma lower_to_actual_last:
  "j < length cols \<Longrightarrow> \<forall>i < length cols. j < i \<longrightarrow> lower (cols ! i) \<noteq> lower (cols ! j)
     \<Longrightarrow> lower_to_actual cols (lower (cols ! j)) = Some (cols ! j)"
proof (induction cols rule: rev_induct)
  case Nil
  then show ?case by simp
next
  case (snoc c cols)
  show ?case
  proof (cases "j < length cols")
    case True
    have "lower c \<noteq> lower (cols ! j)"
      using snoc.prems(2) [rule_format, of "length cols"] True by (simp add: nth_append)
    moreover have "lower_to_actual cols (lower (cols ! j)) = Some (cols ! j)"
    proof (rule snoc.IH [OF True], intro allI impI)
      fix i assume "i < length cols" "j < i"
      then show "lower (cols ! i) \<noteq> lower (cols ! j)"
        using snoc.prems(2) [rule_format, of i] True by (simp add: nth_append)
    qed
    ultimately show ?thesis using True by (simp add: lower_to_actual_snoc nth_append)
  next
    case False
    with snoc.prems(1) have "j = length cols" by simp
    then show ?thesis by (simp add: lower_to_actual_snoc)
  qed
qed

lemma lower_to_actual_unshadowed:
  "c \<in> set cols \<Longrightarrow> \<forall>d \<in> set cols. lower d = lower c \<longrightarrow> d = c
     \<Longrightarrow> lower_to_actual cols (lower c) = Some c"
  using lower_to_actual_present [of c cols] lower_to_actual_Some [of cols "lower c"] by auto

lemma final_rename_of_Nil: "final_rename_of [] lta = Map.empty"
  by (simp add: final_rename_of_def)

lemma final_rename_of_snoc:
  "final_rename_of (es @ [(k, v)]) lta =
     (case lta k of None \<Rightarrow> final_rename_of es lta | Some a \<Rightarrow> (final_rename_of es lta)(a \<mapsto> v))"
  unfolding final_rename_of_def by simp

lemma final_rename_of_eq:
  assumes cons: "\<And>k a. lta k = Some a \<Longrightarrow> lower a = k"
  shows "final_rename_of es lta a =
           (if lta (lower a) = Some a then map_of (rev es) (lower a) else None)"
proof (induction es rule: rev_induct)
  case Nil
  then show ?case by (simp add: final_rename_of_Nil)
next
  case (snoc e es)
  obtain k v where e: "e = (k, v)" by (cases e)
  show ?case
  proof (cases "lta k")
    case None
    then have "lta (lower a) = Some a \<Longrightarrow> lower a \<noteq> k" by auto
    then show ?thesis
      using None snoc.IH by (simp add: e final_rename_of_snoc)
  next
    case (Some b)
    have kb: "lower b = k" using cons [OF Some] .
    show ?thesis
    proof (cases "a = b")
      case True
      then show ?thesis using Some kb by (simp add: e final_rename_of_snoc)
    next
      case False
      have "lta (lower a) = Some a \<Longrightarrow> lower a \<noteq> k" using Some False by auto
      then show ?thesis
        using Some False snoc.IH by (simp add: e final_rename_of_snoc)
    qed
  qed
qed

lemma normalize_columns_eq:
  "normalize_columns df = df\<lparr>columns := map (rho (columns df)) (columns df)\<rparr>"
proof -
  have "final_rename (columns df) a =
          (if lower_to_actual (columns df) (lower a) = Some a
           then map_of (rev rename_map) (lower a) else None)" for a
    unfolding final_rename_def
    by (rule final_rename_of_eq) (simp add: lower_to_actual_Some)
  then show ?thesis
    by (simp add: normalize_columns_def rename_def rho_def split: option.splits)
qed

lemma rename_map_distinct: "distinct (map fst rename_map)"
  by code_simp

lemma rename_map_lookup: "(k, v) \<in> set rename_map \<Longrightarrow> map_of (rev rename_map) k = Some v"
  by (metis rename_map_distinct distinct_rev rev_map map_of_is_SomeI set_rev)

lemma rename_map_lookupD: "map_of (rev rename_map) k = Some v \<Longrightarrow> (k, v) \<in> set rename_map"
  by (drule map_of_SomeD) simp

lemma canonical_fixed:
  "list_all (\<lambda>v. map_of (rev rename_map) (lower v) = None \<or> map_of (rev rename_map) (lower v) = Some v)
     (map snd rename_map @ canonical_columns)"
  by code_simp

lemma rho_fixed:
  assumes "v \<in> snd ` set rename_map \<or> v \<in> set canonical_columns"
  shows "rho cols v = v"
proof -
  have "map_of (rev rename_map) (lower v) = None \<or> map_of (rev rename_map) (lower v) = Some v"
    using canonical_fixed assms by (auto simp: list_all_iff)
  then show ?thesis by (auto simp: rho_def)
qed

lemma normalize_columns_length:
  "length (columns (normalize_columns df)) = length (columns df)"
  by (simp add: normalize_columns_eq)

lemma normalize_columns_rows: "rows (normalize_columns df) = rows df"
  by (simp add: normalize_columns_eq)

lemma mixed_case_key_dead:
  "lower k \<noteq> k \<Longrightarrow> lower_to_actual cols k = None"
  using lower_to_actual_Some [of cols k] lower_idem by (cases "lower_to_actual cols k") auto

lemma count_list_two:
  "a \<in> set xs \<Longrightarrow> b \<in> set xs \<Longrightarrow> a \<noteq> b \<Longrightarrow> f a = v \<Longrightarrow> f b = v
     \<Longrightarrow> 2 \<le> count_list (map f xs) v"
proof (induction xs)
  case Nil
  then show ?case by simp
next
  case (Cons x xs)
  have one: "y \<in> set ys \<Longrightarrow> f y = v \<Longrightarrow> 1 \<le> count_list (map f ys) v" for y ys
    by (induction ys) auto
  show ?case
  proof (cases "a \<in> set xs \<and> b \<in> set xs")
    case True
    with Cons show ?thesis by auto
  next
    case False
    with Cons.prems have "(x = a \<and> b \<in> set xs) \<or> (x = b \<and> a \<in> set xs)" by auto
    then show ?thesis using one [of b xs] one [of a xs] Cons.prems by auto
  qed
qed

text \<open>
  C2, as amended. For every entry \<open>(k, v)\<close> of the lookup table: the last column whose
  lower-cased label is exactly \<open>k\<close> is renamed to \<open>v\<close>; a column that matches no variant
  (its lower-cased label differs from every lower-cased key) keeps its label; no column is
  added or dropped and the cells are untouched.
\<close>

theorem normalize_renames_last_match:
  "((k, v) \<in> set rename_map \<and> j < length (columns df) \<and> lower (columns df ! j) = k \<and>
      (\<forall>i < length (columns df). j < i \<longrightarrow> lower (columns df ! i) \<noteq> k)
      \<longrightarrow> columns (normalize_columns df) ! j = v) \<and>
   (j' < length (columns df) \<and> (\<forall>(k, v) \<in> set rename_map. lower (columns df ! j') \<noteq> lower k)
      \<longrightarrow> columns (normalize_columns df) ! j' = columns df ! j') \<and>
   length (columns (normalize_columns df)) = length (columns df) \<and>
   rows (normalize_columns df) = rows df"
proof (intro conjI impI)
  assume h: "(k, v) \<in> set rename_map \<and> j < length (columns df) \<and> lower (columns df ! j) = k \<and>
      (\<forall>i < length (columns df). j < i \<longrightarrow> lower (columns df ! i) \<noteq> k)"
  then have "lower_to_actual (columns df) (lower (columns df ! j)) = Some (columns df ! j)"
    by (intro lower_to_actual_last) auto
  moreover have "map_of (rev rename_map) (lower (columns df ! j)) = Some v"
    using h rename_map_lookup by auto
  ultimately show "columns (normalize_columns df) ! j = v"
    using h by (simp add: normalize_columns_eq rho_def)
next
  assume h: "j' < length (columns df) \<and>
      (\<forall>(k, v) \<in> set rename_map. lower (columns df ! j') \<noteq> lower k)"
  have "map_of (rev rename_map) (lower (columns df ! j')) = None"
  proof (cases "map_of (rev rename_map) (lower (columns df ! j'))")
    case None
    then show ?thesis .
  next
    case (Some w)
    then have "(lower (columns df ! j'), w) \<in> set rename_map" by (rule rename_map_lookupD)
    with h have "lower (columns df ! j') \<noteq> lower (lower (columns df ! j'))" by blast
    then show ?thesis by (simp add: lower_idem)
  qed
  then show "columns (normalize_columns df) ! j' = columns df ! j'"
    using h by (simp add: normalize_columns_eq rho_def)
qed (simp_all add: normalize_columns_length normalize_columns_rows)

theorem normalize_renames_last_match_witness:
  "columns (normalize_columns \<lparr>columns = [''Vues'', ''note''], rows = [[Num 1, Num 2]]\<rparr>) ! 0 = ''views'' \<and>
   columns (normalize_columns \<lparr>columns = [''Vues'', ''note''], rows = [[Num 1, Num 2]]\<rparr>) ! 1 = ''note''"
proof -
  let ?df = "\<lparr>columns = [''Vues'', ''note''], rows = [[Num 1, Num 2]]\<rparr>"
  have l: "lower ''Vues'' = ''vues''" "lower ''note'' = ''note''" by code_simp+
  have m: "(''vues'', ''views'') \<in> set rename_map" by code_simp
  have "\<forall>i < length (columns ?df). 0 < i \<longrightarrow> lower (columns ?df ! i) \<noteq> ''vues''"
  proof (intro allI impI)
    fix i :: nat
    assume "i < length (columns ?df)" and "0 < i"
    then have "i = 1" by simp
    then show "lower (columns ?df ! i) \<noteq> ''vues''" by (simp add: l)
  qed
  with m have h1: "(''vues'', ''views'') \<in> set rename_map \<and> 0 < length (columns ?df) \<and>
      lower (columns ?df ! 0) = ''vues'' \<and>
      (\<forall>i < length (columns ?df). 0 < i \<longrightarrow> lower (columns ?df ! i) \<noteq> ''vues'')"
    by (simp add: l)
  have "\<forall>(k, v) \<in> set rename_map. ''note'' \<noteq> lower k" by code_simp
  then have h2: "1 < length (columns ?df) \<and>
      (\<forall>(k, v) \<in> set rename_map. lower (columns ?df ! 1) \<noteq> lower k)"
    by (simp add: l)
  note T = normalize_renames_last_match [of "''vues''" "''views''" 0 ?df 1]
  have "columns (normalize_columns ?df) ! 0 = ''views''"
    using conjunct1 [OF T] h1 by (rule mp)
  moreover have "columns (normalize_columns ?df) ! 1 = columns ?df ! 1"
    using conjunct1 [OF conjunct2 [OF T]] h2 by (rule mp)
  then have "columns (normalize_columns ?df) ! 1 = ''note''" by simp
  ultimately show ?thesis by (rule conjI)
qed

text \<open>
  The claim as stated fails: of two columns that differ only in case, only the last one is
  renamed.
\<close>

theorem normalize_shadowed_counterexample:
  "lower ''Views'' = lower ''views'' \<and> (''views'', ''views'') \<in> set rename_map \<and>
   columns (normalize_columns \<lparr>columns = [''Views'', ''views''], rows = []\<rparr>) = [''Views'', ''views'']"
  by code_simp

text \<open>
  Two keys of \<^verbatim>\<open>rename_map\<close> are written in mixed case, while the lookup compares every key
  with lower-cased labels: these two entries can never apply.
\<close>

lemma mixed_case_keys_never_match:
  "columns (normalize_columns \<lparr>columns = [''publishedAt'', ''categoryId''], rows = []\<rparr>) =
     [''publishedAt'', ''categoryId'']"
  by code_simp

text \<open>
  C3, as amended. Take two different keys of the lookup table with the same canonical name,
  and for each the last column whose lower-cased label is exactly that key (as with
  \<open>channel\<close> and \<open>chaine\<close> both present). Both columns are kept and both carry the canonical
  name afterwards: the output has at least two columns so named and as many columns as the
  input, the cells are untouched, and every output label is the input label or its one image
  under the lookup table, so no column is renamed twice.
\<close>

theorem normalize_keeps_both_last_variants:
  assumes "(k1, v) \<in> set rename_map" and "(k2, v) \<in> set rename_map" and "k1 \<noteq> k2"
    and "i < length (columns df)" and "lower (columns df ! i) = k1"
    and "\<forall>m < length (columns df). i < m \<longrightarrow> lower (columns df ! m) \<noteq> k1"
    and "j < length (columns df)" and "lower (columns df ! j) = k2"
    and "\<forall>m < length (columns df). j < m \<longrightarrow> lower (columns df ! m) \<noteq> k2"
  shows "i \<noteq> j \<and>
         columns (normalize_columns df) ! i = v \<and>
         columns (normalize_columns df) ! j = v \<and>
         2 \<le> count_list (columns (normalize_columns df)) v \<and>
         length (columns (normalize_columns df)) = length (columns df) \<and>
         rows (normalize_columns df) = rows df \<and>
         (\<forall>m < length (columns df).
            columns (normalize_columns df) ! m = columns df ! m \<or>
            (lower (columns df ! m), columns (normalize_columns df) ! m) \<in> set rename_map)"
proof -
  let ?cols = "columns df"
  have ij: "i \<noteq> j" using assms(3,5,8) by auto
  have ab: "?cols ! i \<noteq> ?cols ! j" using assms(3,5,8) by auto
  have li: "lower_to_actual ?cols (lower (?cols ! i)) = Some (?cols ! i)"
    using assms(4,5,6) by (intro lower_to_actual_last) auto
  have lj: "lower_to_actual ?cols (lower (?cols ! j)) = Some (?cols ! j)"
    using assms(7,8,9) by (intro lower_to_actual_last) auto
  have ri: "rho ?cols (?cols ! i) = v"
    using li rename_map_lookup [OF assms(1)] assms(5) by (simp add: rho_def)
  have rj: "rho ?cols (?cols ! j) = v"
    using lj rename_map_lookup [OF assms(2)] assms(8) by (simp add: rho_def)
  have two: "2 \<le> count_list (map (rho ?cols) ?cols) v"
    using assms(4,7) ab ri rj by (intro count_list_two [of "?cols ! i" _ "?cols ! j"]) auto
  have once: "rho ?cols x = x \<or> (lower x, rho ?cols x) \<in> set rename_map" for x
    by (auto simp: rho_def split: option.splits dest: rename_map_lookupD)
  show ?thesis
    using ij ri rj two once assms(4,7) by (simp add: normalize_columns_eq)
qed

theorem normalize_keeps_both_last_variants_witness:
  "columns (normalize_columns \<lparr>columns = [''channel'', ''chaine''], rows = [[Str ''X'', Str ''Y'']]\<rparr>) ! 0
     = ''channel'' \<and>
   columns (normalize_columns \<lparr>columns = [''channel'', ''chaine''], rows = [[Str ''X'', Str ''Y'']]\<rparr>) ! 1
     = ''channel'' \<and>
   2 \<le> count_list (columns (normalize_columns
          \<lparr>columns = [''channel'', ''chaine''], rows = [[Str ''X'', Str ''Y'']]\<rparr>)) ''channel''"
proof -
  let ?df = "\<lparr>columns = [''channel'', ''chaine''], rows = [[Str ''X'', Str ''Y'']]\<rparr>"
  have l: "lower ''channel'' = ''channel''" "lower ''chaine'' = ''chaine''" by code_simp+
  have m: "(''channel'', ''channel'') \<in> set rename_map" "(''chaine'', ''channel'') \<in> set rename_map"
    by code_simp+
  have ne: "''channel'' \<noteq> ''chaine''" by simp
  have i: "0 < length (columns ?df)" "lower (columns ?df ! 0) = ''channel''"
    by (simp_all add: l)
  have j: "1 < length (columns ?df)" "lower (columns ?df ! 1) = ''chaine''"
    by (simp_all add: l)
  have li: "\<forall>m < length (columns ?df). 0 < m \<longrightarrow> lower (columns ?df ! m) \<noteq> ''channel''"
  proof (intro allI impI)
    fix m :: nat
    assume "m < length (columns ?df)" and "0 < m"
    then have "m = 1" by simp
    then show "lower (columns ?df ! m) \<noteq> ''channel''" by (simp add: l)
  qed
  have lj: "\<forall>m < length (columns ?df). 1 < m \<longrightarrow> lower (columns ?df ! m) \<noteq> ''chaine''"
    by simp
  note T = normalize_keeps_both_last_variants [OF m ne i li j lj]
  show ?thesis using T by blast
qed

text \<open>
  The claim as stated fails on its own example: with \<open>channel\<close> and \<open>chaine\<close> present the output
  has two columns named \<open>channel\<close>.
\<close>

theorem normalize_duplicate_counterexample:
  "columns (normalize_columns \<lparr>columns = [''channel'', ''chaine''], rows = [[Str ''X'', Str ''Y'']]\<rparr>)
     = [''channel'', ''channel''] \<and>
   count_list (columns (normalize_columns
      \<lparr>columns = [''channel'', ''chaine''], rows = [[Str ''X'', Str ''Y'']]\<rparr>)) ''channel'' = 2"
  by code_simp

text \<open>
  C5, as amended. Normalizing twice is the same as normalizing once for every table in which
  no two differently spelled labels agree up to case; and a table whose labels are all
  canonical is left as it is.
\<close>

theorem normalize_idempotent_without_case_collisions:
  "((\<forall>c \<in> set (columns df). \<forall>d \<in> set (columns df). lower c = lower d \<longrightarrow> c = d)
      \<longrightarrow> normalize_columns (normalize_columns df) = normalize_columns df) \<and>
   (set (columns cf) \<subseteq> set canonical_columns \<longrightarrow> normalize_columns cf = cf)"
proof (intro conjI impI)
  assume nc: "\<forall>c \<in> set (columns df). \<forall>d \<in> set (columns df). lower c = lower d \<longrightarrow> c = d"
  let ?cols = "columns df"
  let ?cols' = "map (rho ?cols) ?cols"
  have "rho ?cols' c' = c'" if "c' \<in> set ?cols'" for c'
  proof -
    from that obtain c where c: "c \<in> set ?cols" "c' = rho ?cols c" by auto
    have lta: "lower_to_actual ?cols (lower c) = Some c"
      using c(1) nc by (intro lower_to_actual_unshadowed) auto
    show ?thesis
    proof (cases "map_of (rev rename_map) (lower c)")
      case None
      then have "c' = c" using c(2) by (simp add: rho_def)
      then show ?thesis using None by (simp add: rho_def)
    next
      case (Some w)
      then have "c' = w" using c(2) lta by (simp add: rho_def)
      moreover have "w \<in> snd ` set rename_map"
        using rename_map_lookupD [OF Some] by force
      ultimately show ?thesis by (simp add: rho_fixed)
    qed
  qed
  then have "map (rho ?cols') ?cols' = ?cols'" by (intro map_idI) blast
  then show "normalize_columns (normalize_columns df) = normalize_columns df"
    by (simp add: normalize_columns_eq)
next
  assume "set (columns cf) \<subseteq> set canonical_columns"
  then have "map (rho (columns cf)) (columns cf) = columns cf"
    by (intro map_idI rho_fixed) auto
  then show "normalize_columns cf = cf"
    by (simp add: normalize_columns_eq)
qed

theorem normalize_idempotent_witness:
  "normalize_columns (normalize_columns \<lparr>columns = [''Vues'', ''Channel''], rows = []\<rparr>) =
     normalize_columns \<lparr>columns = [''Vues'', ''Channel''], rows = []\<rparr> \<and>
   normalize_columns \<lparr>columns = [''views'', ''Heure''], rows = []\<rparr> =
     \<lparr>columns = [''views'', ''Heure''], rows = []\<rparr>"
proof -
  let ?df = "\<lparr>columns = [''Vues'', ''Channel''], rows = []\<rparr>"
  let ?cf = "\<lparr>columns = [''views'', ''Heure''], rows = []\<rparr>"
  have h1: "\<forall>c \<in> set (columns ?df). \<forall>d \<in> set (columns ?df). lower c = lower d \<longrightarrow> c = d"
    by code_simp
  have h2: "set (columns ?cf) \<subseteq> set canonical_columns"
    by code_simp
  show ?thesis
    using normalize_idempotent_without_case_collisions [of ?df ?cf] h1 h2 by blast
qed

text \<open>
  Idempotence fails for the table with the columns \<open>VUES\<close> and \<open>vues\<close>: the first pass
  renames only the second column, the second pass then renames the first.
\<close>

theorem normalize_not_idempotent_counterexample:
  "normalize_columns (normalize_columns \<lparr>columns = [''VUES'', ''vues''], rows = []\<rparr>) \<noteq>
     normalize_columns \<lparr>columns = [''VUES'', ''vues''], rows = []\<rparr>"
proof -
  have "columns (normalize_columns (normalize_columns \<lparr>columns = [''VUES'', ''vues''], rows = []\<rparr>))
          = [''views'', ''views'']"
    by code_simp
  moreover have "columns (normalize_columns \<lparr>columns = [''VUES'', ''vues''], rows = []\<rparr>)
          = [''VUES'', ''views'']"
    by code_simp
  ultimately show ?thesis by auto
qed

subsection \<open>Sequencing\<close>

lemma and_then_Inr [simp]: "and_then (Inr x) f = f x"
  by (simp add: and_then_def)

lemma and_then_Inl [simp]: "and_then (Inl e) f = Inl e"
  by (simp add: and_then_def)

lemma and_then_eq_Inl:
  "and_then m f = Inl e \<longleftrightarrow> m = Inl e \<or> (\<exists>x. m = Inr x \<and> f x = Inl e)"
  by (cases m) auto

lemma and_then_eq_Inr:
  "and_then m f = Inr y \<longleftrightarrow> (\<exists>x. m = Inr x \<and> f x = Inr y)"
  by (cases m) auto

subsection \<open>KPI block\<close>



lemma kpi_series_unique:
  "count_list (columns fdf) c = 1 \<Longrightarrow>
     kpi_series fdf c = Inr (map (\<lambda>r. lookup_cell (columns fdf) r c) (rows fdf))"
  by (simp add: kpi_series_def getitem_def)

lemma kpi_columns_required: "kpi_columns = take 4 REQUIRED_COLUMNS"
  by (simp add: kpi_columns_def REQUIRED_COLUMNS_def)

lemma kpi_series_no_rows: "rows fdf = [] \<Longrightarrow> kpi_series fdf c = Inr xs \<Longrightarrow> xs = []"
  by (auto simp: kpi_series_def getitem_def Let_def split: if_splits)

text \<open>
  C4. On a filtered table with no rows, a total of interactions, when the block produces
  one, is 0, and an average, when the block produces one, is NaN and never 0; each is
  produced as soon as its column is there (its label once). The sum and the mean of nothing
  differ, and the cards show \<open>0\<close> for the sum and the placeholder for the means.
\<close>

theorem empty_table_sum_zero_mean_nan:
  assumes "rows fdf = []"
  shows "(\<forall>x. total_interactions fdf = Inr x \<longrightarrow> x = Fin 0) \<and>
         (\<forall>x. avg_views fdf = Inr x \<longrightarrow> x = NaN) \<and>
         (\<forall>x. avg_engagement fdf = Inr x \<longrightarrow> x = NaN) \<and>
         (count_list (columns fdf) ''Engagement total'' = 1 \<longrightarrow>
            total_interactions fdf = Inr (Fin 0)) \<and>
         (count_list (columns fdf) ''views'' = 1 \<longrightarrow> avg_views fdf = Inr NaN) \<and>
         (count_list (columns fdf) ''Taux d'engagement (%)'' = 1 \<longrightarrow>
            avg_engagement fdf = Inr NaN) \<and>
         Fin 0 \<noteq> NaN \<and>
         fr_int (Fin 0) = ''0'' \<and> fr_int NaN = em_dash \<and>
         fr_float NaN 2 @ '' %'' = em_dash @ '' %'' \<and>
         (count_list (columns fdf) ''category_id'' = 1 \<and>
          count_list (columns fdf) ''views'' = 1 \<and>
          count_list (columns fdf) ''Taux d'engagement (%)'' = 1 \<and>
          count_list (columns fdf) ''Engagement total'' = 1 \<longrightarrow>
            kpi_block fdf = Inr (''0'', em_dash, em_dash @ '' %'', ''0''))"
proof -
  have z: "fr_int (Fin 0) = ''0''"
    by (simp add: fr_int_def isna_def format_comma_int_def grouped_def round_half_even_def
        replace_char_def digit_char_def dec_digits.simps)
  have n: "fr_int NaN = em_dash" "fr_float NaN 2 = em_dash"
    by (simp_all add: fr_int_def fr_float_def isna_def)
  have t: "x = Fin 0" if "total_interactions fdf = Inr x" for x
    using that
    by (auto simp: total_interactions_def and_then_eq_Inr sum_series_def dest: kpi_series_no_rows [OF assms])
  have v: "x = NaN" if "avg_views fdf = Inr x" for x
    using that
    by (auto simp: avg_views_def and_then_eq_Inr mean_def dest: kpi_series_no_rows [OF assms])
  have e: "x = NaN" if "avg_engagement fdf = Inr x" for x
    using that
    by (auto simp: avg_engagement_def and_then_eq_Inr mean_def dest: kpi_series_no_rows [OF assms])
  have t1: "total_interactions fdf = Inr (Fin 0)"
    if "count_list (columns fdf) ''Engagement total'' = 1"
    using that assms by (simp add: total_interactions_def kpi_series_unique sum_series_def)
  have v1: "avg_views fdf = Inr NaN" if "count_list (columns fdf) ''views'' = 1"
    using that assms by (simp add: avg_views_def kpi_series_unique mean_def)
  have e1: "avg_engagement fdf = Inr NaN"
    if "count_list (columns fdf) ''Taux d'engagement (%)'' = 1"
    using that assms by (simp add: avg_engagement_def kpi_series_unique mean_def)
  have k: "kpi_block fdf = Inr (''0'', em_dash, em_dash @ '' %'', ''0'')"
    if "count_list (columns fdf) ''category_id'' = 1" "count_list (columns fdf) ''views'' = 1"
       "count_list (columns fdf) ''Taux d'engagement (%)'' = 1"
       "count_list (columns fdf) ''Engagement total'' = 1"
    using that assms t1 v1 e1 z n
    by (simp add: kpi_block_def count_videos_def kpi_series_unique notna_sum_def dropna_def)
  have d: "Fin 0 \<noteq> NaN" by simp
  have p: "fr_float NaN 2 @ '' %'' = em_dash @ '' %''" using n by simp
  show ?thesis
    using t v e t1 v1 e1 d z n(1) p k by blast
qed

theorem empty_table_witness:
  "total_interactions \<lparr>columns = REQUIRED_COLUMNS, rows = []\<rparr> = Inr (Fin 0) \<and>
   avg_views \<lparr>columns = REQUIRED_COLUMNS, rows = []\<rparr> = Inr NaN \<and>
   avg_engagement \<lparr>columns = REQUIRED_COLUMNS, rows = []\<rparr> = Inr NaN \<and>
   kpi_block \<lparr>columns = REQUIRED_COLUMNS, rows = []\<rparr> = Inr (''0'', em_dash, em_dash @ '' %'', ''0'')"
proof -
  let ?t = "\<lparr>columns = REQUIRED_COLUMNS, rows = []\<rparr>"
  have h: "rows ?t = []" by simp
  have c: "count_list (columns ?t) ''views'' = 1"
    "count_list (columns ?t) ''Taux d'engagement (%)'' = 1"
    "count_list (columns ?t) ''Engagement total'' = 1"
    "count_list (columns ?t) ''category_id'' = 1"
    by (simp_all add: REQUIRED_COLUMNS_def)
  show ?thesis
    using empty_table_sum_zero_mean_nan [OF h] c by blast
qed







subsection \<open>Column assignment\<close>

lemma wf_frame_nth: "wf_frame df \<Longrightarrow> i < length (rows df) \<Longrightarrow> length (rows df ! i) = length (columns df)"
  by (simp add: wf_frame_def list_all_length)

lemma map_of_zip_replace:
  "length cols = length r \<Longrightarrow>
   map_of (zip cols (map (\<lambda>(n, c). if n = col then v else c) (zip cols r))) l =
     (if l = col then (if col \<in> set cols then Some v else None) else map_of (zip cols r) l)"
  by (induction cols r rule: list_induct2) auto

lemma map_of_zip_None: "length cols = length r \<Longrightarrow> l \<notin> set cols \<Longrightarrow> map_of (zip cols r) l = None"
  by (induction cols r rule: list_induct2) auto

lemma map_of_zip_snoc:
  "length cols = length r \<Longrightarrow>
   map_of (zip (cols @ [col]) (r @ [v])) l =
     (case map_of (zip cols r) l of Some c \<Rightarrow> Some c | None \<Rightarrow> if l = col then Some v else None)"
  by (induction cols r rule: list_induct2) auto

lemma lookup_cell_replace:
  "length cols = length r \<Longrightarrow> col \<in> set cols \<Longrightarrow>
   lookup_cell cols (map (\<lambda>(n, c). if n = col then v else c) (zip cols r)) l =
     (if l = col then v else lookup_cell cols r l)"
  by (simp add: lookup_cell_def map_of_zip_replace)

lemma lookup_cell_snoc:
  "length cols = length r \<Longrightarrow> col \<notin> set cols \<Longrightarrow>
   lookup_cell (cols @ [col]) (r @ [v]) l = (if l = col then v else lookup_cell cols r l)"
  by (auto simp: lookup_cell_def map_of_zip_snoc map_of_zip_None split: option.splits)

lemma setitem_cells:
  assumes "setitem df col vals = Inr df'" and "wf_frame df"
  shows "wf_frame df' \<and> length (rows df') = length (rows df) \<and>
         set (columns df') = insert col (set (columns df)) \<and>
         (col \<in> set (columns df) \<longrightarrow> columns df' = columns df) \<and>
         (\<forall>i < length (rows df).
            lookup_cell (columns df') (rows df' ! i) col = vals ! i \<and>
            (\<forall>l. l \<noteq> col \<longrightarrow>
               lookup_cell (columns df') (rows df' ! i) l = lookup_cell (columns df) (rows df ! i) l))"
proof -
  have len: "length vals = length (rows df)"
    using assms(1) by (auto simp: setitem_def split: if_splits)
  have wf: "length (rows df ! i) = length (columns df)" if "i < length (rows df)" for i
    using assms(2) that by (rule wf_frame_nth)
  show ?thesis
  proof (cases "col \<in> set (columns df)")
    case True
    then have df': "df' = df\<lparr>rows := map (\<lambda>(r, v). map (\<lambda>(n, c). if n = col then v else c)
                                 (zip (columns df) r)) (zip (rows df) vals)\<rparr>"
      using assms(1) len by (simp add: setitem_def)
    have "wf_frame df'"
      using wf len by (auto simp: df' wf_frame_def list_all_length)
    then show ?thesis
      using True len wf by (auto simp: df' lookup_cell_replace)
  next
    case False
    then have df': "df' = \<lparr>columns = columns df @ [col],
                            rows = map (\<lambda>(r, v). r @ [v]) (zip (rows df) vals)\<rparr>"
      using assms(1) len by (simp add: setitem_def)
    have "wf_frame df'"
      using wf len by (auto simp: df' wf_frame_def list_all_length)
    then show ?thesis
      using False len wf by (auto simp: df' lookup_cell_snoc)
  qed
qed

lemma same_cells_refl: "same_cells L df df"
  by (simp add: same_cells_def)

lemma same_cells_trans:
  "same_cells L a b \<Longrightarrow> same_cells L b c \<Longrightarrow> same_cells L a c"
  by (auto simp: same_cells_def)

lemma same_cells_mono: "same_cells L a b \<Longrightarrow> K \<subseteq> L \<Longrightarrow> same_cells K a b"
  by (auto simp: same_cells_def)

lemma setitem_same_cells:
  "setitem df col vals = Inr df' \<Longrightarrow> wf_frame df \<Longrightarrow> same_cells (- {col}) df df'"
  using setitem_cells [of df col vals df'] by (auto simp: same_cells_def)

lemma getitem_Series:
  "getitem df col = Series xs \<Longrightarrow> xs = map (\<lambda>r. lookup_cell (columns df) r col) (rows df)"
  by (auto simp: getitem_def Let_def split: if_splits)

lemma derive_step:
  assumes "derive c f df = Inr df'" and "wf_frame df"
  shows "wf_frame df' \<and> set (columns df) \<subseteq> set (columns df') \<and> same_cells (- {c}) df df' \<and>
         set (columns df') \<subseteq> insert c (set (columns df))"
proof (cases "c \<in> set (columns df)")
  case True
  then show ?thesis using assms by (auto simp: derive_def same_cells_refl)
next
  case False
  then obtain xs where "setitem df c (map f xs) = Inr df'"
    using assms(1) by (auto simp: derive_def split: selection.splits)
  then show ?thesis
    using setitem_cells [of df c "map f xs" df'] setitem_same_cells [of df c "map f xs" df'] assms(2)
    by auto
qed

lemma derive_establishes:
  assumes "derive c f df = Inr df'" and "wf_frame df" and "c \<notin> set (columns df)"
    and "c \<noteq> ''published_at''"
  shows "derived_from c f df'"
proof -
  obtain xs where xs: "getitem df ''published_at'' = Series xs"
    and set: "setitem df c (map f xs) = Inr df'"
    using assms(1,3) by (auto simp: derive_def split: selection.splits)
  note xs' = getitem_Series [OF xs]
  note S = setitem_cells [OF set assms(2)]
  have "lookup_cell (columns df') (rows df' ! i) c =
          f (lookup_cell (columns df') (rows df' ! i) ''published_at'')"
    if "i < length (rows df')" for i
  proof -
    have i: "i < length (rows df)" using that S by simp
    then have "lookup_cell (columns df') (rows df' ! i) c = map f xs ! i" using S by blast
    also have "\<dots> = f (lookup_cell (columns df) (rows df ! i) ''published_at'')"
      using i by (simp add: xs')
    also have "lookup_cell (columns df) (rows df ! i) ''published_at'' =
                 lookup_cell (columns df') (rows df' ! i) ''published_at''"
      using S i assms(4) by (metis)
    finally show ?thesis .
  qed
  moreover have "c \<in> set (columns df')" using S by auto
  ultimately show ?thesis by (simp add: derived_from_def)
qed

lemma derived_from_preserved:
  assumes "derived_from c f df" and "same_cells {''published_at'', c} df df'"
    and "set (columns df) \<subseteq> set (columns df')"
  shows "derived_from c f df'"
  using assms by (auto simp: derived_from_def same_cells_def)

lemma coerce_step:
  assumes "coerce P c df = Inr df'" and "wf_frame df"
  shows "wf_frame df' \<and> set (columns df') = set (columns df) \<and> same_cells (- {c}) df df'"
proof (cases "c \<in> set (columns df)")
  case False
  then show ?thesis using assms by (auto simp: coerce_def same_cells_refl)
next
  case True
  then obtain xs where "setitem df c (map (to_numeric_cell P) xs) = Inr df'"
    using assms(1) by (auto simp: coerce_def split: selection.splits)
  then show ?thesis
    using setitem_cells [of df c _ df'] setitem_same_cells [of df c _ df'] assms(2) True
    by auto
qed

lemma coerce_loop_step:
  "coerce_loop P cs df = Inr df' \<Longrightarrow> wf_frame df \<Longrightarrow>
     wf_frame df' \<and> set (columns df') = set (columns df) \<and> same_cells (- set cs) df df'"
proof (induction cs arbitrary: df)
  case Nil
  then show ?case by (simp add: same_cells_refl)
next
  case (Cons c cs)
  from Cons.prems(1) obtain d where d: "coerce P c df = Inr d" "coerce_loop P cs d = Inr df'"
    by (auto simp: and_then_eq_Inr)
  note A = coerce_step [OF d(1) Cons.prems(2)]
  note B = Cons.IH [OF d(2)] 
  have "same_cells (- set (c # cs)) df d" using A by (auto intro: same_cells_mono)
  moreover have "same_cells (- set (c # cs)) d df'" using A B by (auto intro: same_cells_mono)
  ultimately show ?case using A B by (auto intro: same_cells_trans)
qed

subsection \<open>Loader\<close>

lemma setitem_error: "setitem df c vals = Inl e \<Longrightarrow> e = ValueError"
  by (auto simp: setitem_def split: if_splits)

lemma parse_published_at_error: "parse_published_at P df = Inl e \<Longrightarrow> e \<noteq> UnsupportedFormat"
  by (auto simp: parse_published_at_def split: if_splits selection.splits dest: setitem_error)

lemma derive_error: "derive c f df = Inl e \<Longrightarrow> e \<noteq> UnsupportedFormat"
  by (auto simp: derive_def split: if_splits selection.splits dest: setitem_error)

lemma derive_slicer_columns_error: "derive_slicer_columns df = Inl e \<Longrightarrow> e \<noteq> UnsupportedFormat"
  by (auto simp: derive_slicer_columns_def and_then_eq_Inl split: if_splits dest: derive_error)

lemma coerce_error: "coerce P c df = Inl e \<Longrightarrow> e \<noteq> UnsupportedFormat"
  by (auto simp: coerce_def split: if_splits selection.splits dest: setitem_error)

lemma coerce_loop_error: "coerce_loop P cs df = Inl e \<Longrightarrow> e \<noteq> UnsupportedFormat"
  by (induction cs arbitrary: df) (auto simp: and_then_eq_Inl dest: coerce_error)

lemma prepare_error: "prepare P df = Inl e \<Longrightarrow> e \<noteq> UnsupportedFormat"
  by (auto simp: prepare_def and_then_eq_Inl
      dest: parse_published_at_error derive_slicer_columns_error coerce_error)

lemma endswith_lower:
  assumes "endswith s suf" and "lower suf = suf"
  shows "endswith (lower s) suf"
proof -
  have "drop (length s - length suf) (lower s) = lower (drop (length s - length suf) s)"
    by (simp add: lower_def drop_map)
  then show ?thesis
    using assms by (simp add: endswith_def lower_def)
qed

lemma extensions_lower: "lower ''.csv'' = ''.csv''" "lower ''.parquet'' = ''.parquet''"
  by code_simp+

text \<open>
  C9. Without a file \<^verbatim>\<open>load_data\<close> returns the frame with no rows and no columns. With a
  file it fails with the unsupported-format error exactly when the lower-cased name ends in
  neither \<open>.csv\<close> nor \<open>.parquet\<close> (the extension is compared without regard to case); in
  particular such a name ends in neither extension as written. The failure carries no
  frame.
\<close>

theorem load_data_empty_or_unsupported:
  "load_data P None = Inr empty_frame \<and> columns empty_frame = [] \<and> rows empty_frame = [] \<and>
   (load_data P (Some f) = Inl UnsupportedFormat \<longleftrightarrow>
      \<not> endswith (lower (name f)) ''.csv'' \<and> \<not> endswith (lower (name f)) ''.parquet'') \<and>
   (load_data P (Some f) = Inl UnsupportedFormat \<longrightarrow>
      \<not> endswith (name f) ''.csv'' \<and> \<not> endswith (name f) ''.parquet'')"
proof -
  have a: "load_data P (Some f) \<noteq> Inl UnsupportedFormat"
    if "endswith (lower (name f)) ''.csv'' \<or> endswith (lower (name f)) ''.parquet''"
    using that prepare_error [of P _ UnsupportedFormat]
    by (auto simp: load_data_def Let_def split: sum.splits)
  have b: "load_data P (Some f) = Inl UnsupportedFormat"
    if "\<not> endswith (lower (name f)) ''.csv''" "\<not> endswith (lower (name f)) ''.parquet''"
    using that by (simp add: load_data_def Let_def)
  have c: "endswith (lower (name f)) ''.csv''" if "endswith (name f) ''.csv''"
    using that extensions_lower(1) by (rule endswith_lower)
  have d: "endswith (lower (name f)) ''.parquet''" if "endswith (name f) ''.parquet''"
    using that extensions_lower(2) by (rule endswith_lower)
  have "load_data P None = Inr empty_frame" by (simp add: load_data_def)
  then show ?thesis
    using a b c d by (auto simp: empty_frame_def)
qed

theorem load_data_witness:
  "load_data reference_pandas None = Inr empty_frame \<and>
   load_data reference_pandas (Some \<lparr>name = ''Export.XLSX'', payload = []\<rparr>) = Inl UnsupportedFormat \<and>
   load_data reference_pandas (Some \<lparr>name = ''Videos.CSV'', payload = []\<rparr>) \<noteq> Inl UnsupportedFormat"
proof -
  have "\<not> endswith (lower ''Export.XLSX'') ''.csv''" "\<not> endswith (lower ''Export.XLSX'') ''.parquet''"
    "endswith (lower ''Videos.CSV'') ''.csv''"
    by code_simp+
  then show ?thesis
    using load_data_empty_or_unsupported [of reference_pandas "\<lparr>name = ''Export.XLSX'', payload = []\<rparr>"]
      load_data_empty_or_unsupported [of reference_pandas "\<lparr>name = ''Videos.CSV'', payload = []\<rparr>"]
    by simp
qed

lemma coerce_unique:
  "coerce P c df = Inr df' \<Longrightarrow> columns df' = columns df \<and> count_list (columns df) c \<le> 1"
  by (auto simp: coerce_def getitem_def setitem_def Let_def count_list_0_iff
      split: if_splits selection.splits)

lemma coerce_loop_unique:
  "coerce_loop P cs df = Inr df' \<Longrightarrow>
     columns df' = columns df \<and> (\<forall>c \<in> set cs. count_list (columns df) c \<le> 1)"
proof (induction cs arbitrary: df)
  case Nil
  then show ?case by simp
next
  case (Cons c cs)
  from Cons.prems obtain d where d: "coerce P c df = Inr d" "coerce_loop P cs d = Inr df'"
    by (auto simp: and_then_eq_Inr)
  show ?case
    using coerce_unique [OF d(1)] Cons.IH [OF d(2)] by auto
qed

lemma loaded_numeric_labels_unique:
  assumes "prepare P raw = Inr df"
    and "c \<in> {''views'', ''Taux d'engagement (%)'', ''Engagement total''}"
  shows "count_list (columns df) c \<le> 1"
proof -
  obtain d2 where L:
    "coerce_loop P [''views'', ''Taux d'engagement (%)'', ''Engagement total''] d2 = Inr df"
    using assms(1) by (auto simp: prepare_def and_then_eq_Inr)
  note U = coerce_loop_unique [OF L]
  show ?thesis
    using U assms(2) by auto
qed

lemma labels_distinct:
  "distinct [''published_at'', Annee, ''Jour de la semaine'', ''Heure'', ''views'',
             ''Taux d'engagement (%)'', ''Engagement total'']"
  by (simp add: Annee_def)

lemma wf_normalize_columns: "wf_frame df \<Longrightarrow> wf_frame (normalize_columns df)"
  by (simp add: wf_frame_def normalize_columns_def rename_def)

lemma parse_step:
  assumes "parse_published_at P df = Inr df'" and "wf_frame df"
  shows "wf_frame df' \<and> set (columns df') = set (columns df)"
proof (cases "''published_at'' \<in> set (columns df)")
  case False
  then show ?thesis using assms by (simp add: parse_published_at_def)
next
  case True
  then obtain vals where "setitem df ''published_at'' vals = Inr df'"
    using assms(1) by (auto simp: parse_published_at_def split: selection.splits)
  then show ?thesis
    using setitem_cells [of df "''published_at''" vals df'] assms(2) True by auto
qed

lemma derive_slicer_columns_derived:
  assumes "derive_slicer_columns df = Inr df'" and "wf_frame df"
    and "''published_at'' \<in> set (columns df)"
    and "(c, f) \<in> set derived_columns" and "c \<notin> set (columns df)"
  shows "wf_frame df' \<and> derived_from c f df' \<and> set (columns df) \<subseteq> set (columns df')"
proof -
  obtain e1 e2 where e:
    "derive Annee dt_year df = Inr e1"
    "derive ''Jour de la semaine'' dt_weekday_name e1 = Inr e2"
    "derive ''Heure'' dt_hour e2 = Inr df'"
    using assms(1,3) by (auto simp: derive_slicer_columns_def and_then_eq_Inr)
  note S1 = derive_step [OF e(1) assms(2)]
  then have wf1: "wf_frame e1" by simp
  note S2 = derive_step [OF e(2) wf1]
  then have wf2: "wf_frame e2" by simp
  note S3 = derive_step [OF e(3) wf2]
  have sub: "set (columns df) \<subseteq> set (columns df')" using S1 S2 S3 by blast
  from assms(4) consider
      "c = Annee" "f = dt_year"
    | "c = ''Jour de la semaine''" "f = dt_weekday_name"
    | "c = ''Heure''" "f = dt_hour"
    by (auto simp: derived_columns_def)
  then have "derived_from c f df'"
  proof cases
    case 1
    have "derived_from c f e1"
      unfolding 1 using labels_distinct assms(5)
      by (intro derive_establishes [OF e(1) assms(2)]) (auto simp: 1)
    moreover have "same_cells {''published_at'', c} e1 e2"
      using S2 labels_distinct by (auto simp: 1 intro: same_cells_mono)
    moreover have "same_cells {''published_at'', c} e2 df'"
      using S3 labels_distinct by (auto simp: 1 intro: same_cells_mono)
    ultimately show ?thesis
      using S2 S3 by (blast intro: derived_from_preserved)
  next
    case 2
    have "c \<notin> set (columns e1)"
      using S1 assms(5) labels_distinct by (auto simp: 2)
    then have "derived_from c f e2"
      unfolding 2 using labels_distinct
      by (intro derive_establishes [OF e(2) wf1]) (auto simp: 2)
    moreover have "same_cells {''published_at'', c} e2 df'"
      using S3 labels_distinct by (auto simp: 2 intro: same_cells_mono)
    ultimately show ?thesis
      using S3 by (blast intro: derived_from_preserved)
  next
    case 3
    have "c \<notin> set (columns e2)"
      using S1 S2 assms(5) labels_distinct by (auto simp: 3)
    then show ?thesis
      unfolding 3 using labels_distinct
      by (intro derive_establishes [OF e(3) wf2]) (auto simp: 3)
  qed
  then show ?thesis using S3 sub by simp
qed

lemma derived_columns_follow_timestamp:
  assumes "prepare P raw = Inr df" and "wf_frame raw"
    and "''published_at'' \<in> set (columns (normalize_columns raw))"
    and "(c, f) \<in> set derived_columns"
    and "c \<notin> set (columns (normalize_columns raw))"
  shows "derived_from c f df"
proof -
  obtain d1 d2 where d:
    "parse_published_at P (normalize_columns raw) = Inr d1"
    "derive_slicer_columns d1 = Inr d2"
    "coerce_loop P [''views'', ''Taux d'engagement (%)'', ''Engagement total''] d2 = Inr df"
    using assms(1) by (auto simp: prepare_def and_then_eq_Inr)
  note A = parse_step [OF d(1) wf_normalize_columns [OF assms(2)]]
  then have wf1: "wf_frame d1" by simp
  have "''published_at'' \<in> set (columns d1)" "c \<notin> set (columns d1)"
    using A assms(3,5) by auto
  note B = derive_slicer_columns_derived [OF d(2) wf1 this(1) assms(4) this(2)]
  then have wf2: "wf_frame d2" by simp
  note C = coerce_loop_step [OF d(3) wf2]
  have "c \<in> {Annee, ''Jour de la semaine'', ''Heure''}"
    using assms(4) by (auto simp: derived_columns_def)
  then have "same_cells {''published_at'', c} d2 df"
    using C labels_distinct by (auto intro: same_cells_mono)
  then show ?thesis
    using B C by (auto intro: derived_from_preserved)
qed

lemma derived_of_Null: "(c, f) \<in> set derived_columns \<Longrightarrow> f Null = Null"
  by (auto simp: derived_columns_def dt_year_def dt_weekday_name_def dt_hour_def)

text \<open>
  C7. After \<^verbatim>\<open>load_data\<close>, in every row whose \<^verbatim>\<open>published_at\<close> cell is null (missing or
  coerced to NaT), the cell of each derived column (year, weekday name, hour) is null too.
  A column is derived when the normalized input has \<^verbatim>\<open>published_at\<close> and does not already
  bring that column itself.
\<close>

theorem derived_null_when_timestamp_null:
  assumes "prepare P raw = Inr df" and "wf_frame raw"
    and "''published_at'' \<in> set (columns (normalize_columns raw))"
    and "c \<in> set (map fst derived_columns)"
    and "c \<notin> set (columns (normalize_columns raw))"
    and "r \<in> set (rows df)"
    and "lookup_cell (columns df) r ''published_at'' = Null"
  shows "c \<in> set (columns df) \<and> lookup_cell (columns df) r c = Null"
proof -
  obtain f where f: "(c, f) \<in> set derived_columns" using assms(4) by auto
  have D: "derived_from c f df"
    using assms(1,2,3) f assms(5) by (rule derived_columns_follow_timestamp)
  obtain i where "i < length (rows df)" "r = rows df ! i"
    using assms(6) by (auto simp: in_set_conv_nth)
  then have "lookup_cell (columns df) r c = f (lookup_cell (columns df) r ''published_at'')"
    using D by (simp add: derived_from_def)
  then show ?thesis
    using D assms(7) derived_of_Null [OF f] by (simp add: derived_from_def)
qed

lemma prepare_unparseable:
  "prepare reference_pandas \<lparr>columns = [''published_at''], rows = [[Str ''soon'']]\<rparr> =
     Inr \<lparr>columns = [''published_at'', Annee, ''Jour de la semaine'', ''Heure''],
          rows = [[Null, Null, Null, Null]]\<rparr>"
  by code_simp

theorem derived_null_witness:
  "Annee \<in> set [''published_at'', Annee, ''Jour de la semaine'', ''Heure''] \<and>
   lookup_cell [''published_at'', Annee, ''Jour de la semaine'', ''Heure'']
     [Null, Null, Null, Null] Annee = Null"
proof -
  let ?raw = "\<lparr>columns = [''published_at''], rows = [[Str ''soon'']]\<rparr>"
  let ?df = "\<lparr>columns = [''published_at'', Annee, ''Jour de la semaine'', ''Heure''],
          rows = [[Null, Null, Null, Null]]\<rparr>"
  have n: "columns (normalize_columns ?raw) = [''published_at'']" by code_simp
  have h: "wf_frame ?raw" "''published_at'' \<in> set (columns (normalize_columns ?raw))"
    "Annee \<in> set (map fst derived_columns)" "Annee \<notin> set (columns (normalize_columns ?raw))"
    "[Null, Null, Null, Null] \<in> set (rows ?df)"
    "lookup_cell (columns ?df) [Null, Null, Null, Null] ''published_at'' = Null"
    by (simp_all add: n wf_frame_def derived_columns_def lookup_cell_def Annee_def)
  show ?thesis
    using derived_null_when_timestamp_null [OF prepare_unparseable h] by simp
qed

subsection \<open>Filter block\<close>

lemma select_rows: "map snd (filter fst (zip (map p xs) xs)) = filter p xs"
  by (induction xs) auto

lemma bool_index_isin:
  "bool_index fdf (isin (map g (rows fdf)) sel) = fdf\<lparr>rows := filter (\<lambda>r. g r \<in> set sel) (rows fdf)\<rparr>"
proof -
  have "zip (map (\<lambda>x. x \<in> set sel) (map g (rows fdf))) (rows fdf)
          = zip (map (\<lambda>r. g r \<in> set sel) (rows fdf)) (rows fdf)"
    by (simp add: comp_def)
  then show ?thesis
    by (simp add: bool_index_def isin_def select_rows)
qed

lemma conjunctive_filter_columns [simp]: "columns (conjunctive_filter fs df) = columns df"
  by (simp add: conjunctive_filter_def)

lemma ambiguous_conjunctive_filter [simp]:
  "ambiguous (conjunctive_filter fs df) = ambiguous df"
  by (simp add: ambiguous_def fun_eq_iff)

lemma facet_ok_conjunctive_filter [simp]:
  "facet_ok (conjunctive_filter fs df) = facet_ok df"
  by (simp add: facet_ok_def fun_eq_iff)

lemma facet_ok_rows_update [simp]: "facet_ok (df\<lparr>rows := rs\<rparr>) = facet_ok df"
  by (simp add: facet_ok_def fun_eq_iff)

lemma conjunctive_filter_Nil: "conjunctive_filter [] df = df"
  by (simp add: conjunctive_filter_def)

lemma conjunctive_filter_twice:
  "conjunctive_filter gs (conjunctive_filter fs df) = conjunctive_filter (fs @ gs) df"
  by (simp add: conjunctive_filter_def conj_commute cong: conj_cong)

lemma conjunctive_filter_cong:
  "set fs = set gs \<Longrightarrow> conjunctive_filter fs df = conjunctive_filter gs df"
  by (simp add: conjunctive_filter_def list_all_iff)

lemma apply_facet_eq:
  "apply_facet sel col fdf =
     (if ambiguous fdf (sel, col) then Inl FrameMask else Inr (conjunctive_filter [(sel, col)] fdf))"
proof (cases "sel \<noteq> [] \<and> col \<in> set (columns fdf)")
  case False
  then have "count_list (columns fdf) col = 0 \<or> sel = []"
    by (auto simp: count_list_0_iff)
  moreover have "conjunctive_filter [(sel, col)] fdf = fdf"
    using False by (auto simp: conjunctive_filter_def facet_ok_def)
  ultimately show ?thesis
    using False by (auto simp: apply_facet_def ambiguous_def)
next
  case True
  then have pos: "count_list (columns fdf) col \<noteq> 0"
    by (simp add: count_list_0_iff)
  have "conjunctive_filter [(sel, col)] fdf =
          fdf\<lparr>rows := filter (\<lambda>r. lookup_cell (columns fdf) r col \<in> set sel) (rows fdf)\<rparr>"
    using True by (simp add: conjunctive_filter_def facet_ok_def)
  then show ?thesis
    using True pos by (auto simp: apply_facet_def ambiguous_def getitem_def bool_index_isin)
qed

lemma filter_block_eq:
  assumes "\<not> list_ex (ambiguous df)
             [(year_sel s, Annee), (cat_sel s, ''cats.name''), (ch_sel s, ''channel''),
              (day_sel s, ''Jour de la semaine''), (hour_sel s, ''Heure'')]"
  shows "filter_block s df = Inr (conjunctive_filter
             [(year_sel s, Annee), (cat_sel s, ''cats.name''), (ch_sel s, ''channel''),
              (day_sel s, ''Jour de la semaine''), (hour_sel s, ''Heure'')] df)"
  using assms by (simp add: filter_block_def apply_facet_eq conjunctive_filter_twice)

lemma facet_options_ok: "facet_options df col = Inr xs \<Longrightarrow> count_list (columns df) col \<le> 1"
  by (auto simp: facet_options_def getitem_def Let_def split: if_splits)

lemma slicers_unambiguous:
  assumes "slicers df = Inr opts"
    and "col \<in> {Annee, ''cats.name'', ''channel'', ''Jour de la semaine'', ''Heure''}"
  shows "\<not> ambiguous df (sel, col)"
proof -
  have "\<exists>xs. facet_options df col = Inr xs"
    using assms by (auto simp: slicers_def and_then_eq_Inr)
  then have "count_list (columns df) col \<le> 1"
    using facet_options_ok by blast
  then show ?thesis by (simp add: ambiguous_def)
qed

text \<open>
  C6. On a table that reaches the filter block (no facet label with a selection is
  repeated; the slicer lines fail before the filter block otherwise, lemma
  \<open>slicers_unambiguous\<close>), filtering by facet A then B gives the same table as B then A,
  and both give the rows that satisfy the two facets at once.
\<close>

theorem facets_commute:
  assumes "\<not> ambiguous t (sa, A)" and "\<not> ambiguous t (sb, B)"
  shows "and_then (apply_facet sa A t) (apply_facet sb B) =
           and_then (apply_facet sb B t) (apply_facet sa A) \<and>
         and_then (apply_facet sa A t) (apply_facet sb B) =
           Inr (conjunctive_filter [(sa, A), (sb, B)] t) \<and>
         columns (conjunctive_filter [(sa, A), (sb, B)] t) = columns t \<and>
         set (rows (conjunctive_filter [(sa, A), (sb, B)] t)) =
           {r \<in> set (rows t). facet_ok t (sa, A) r \<and> facet_ok t (sb, B) r}"
proof -
  have ab: "and_then (apply_facet sa A t) (apply_facet sb B) =
              Inr (conjunctive_filter [(sa, A), (sb, B)] t)"
    using assms by (simp add: apply_facet_eq conjunctive_filter_twice)
  have "and_then (apply_facet sb B t) (apply_facet sa A) =
              Inr (conjunctive_filter [(sb, B), (sa, A)] t)"
    using assms by (simp add: apply_facet_eq conjunctive_filter_twice)
  also have "conjunctive_filter [(sb, B), (sa, A)] t = conjunctive_filter [(sa, A), (sb, B)] t"
    by (rule conjunctive_filter_cong) auto
  finally show ?thesis
    using ab by (auto simp: conjunctive_filter_def)
qed

theorem facets_commute_witness:
  "and_then (apply_facet [Num 2024] ''year'' \<lparr>columns = [''year'', ''channel''],
        rows = [[Num 2024, Str ''X''], [Num 2024, Str ''Y''], [Num 2023, Str ''X'']]\<rparr>)
      (apply_facet [Str ''X''] ''channel'')
   = and_then (apply_facet [Str ''X''] ''channel'' \<lparr>columns = [''year'', ''channel''],
        rows = [[Num 2024, Str ''X''], [Num 2024, Str ''Y''], [Num 2023, Str ''X'']]\<rparr>)
      (apply_facet [Num 2024] ''year'') \<and>
   and_then (apply_facet [Num 2024] ''year'' \<lparr>columns = [''year'', ''channel''],
        rows = [[Num 2024, Str ''X''], [Num 2024, Str ''Y''], [Num 2023, Str ''X'']]\<rparr>)
      (apply_facet [Str ''X''] ''channel'')
   = Inr \<lparr>columns = [''year'', ''channel''], rows = [[Num 2024, Str ''X'']]\<rparr>"
proof -
  let ?t = "\<lparr>columns = [''year'', ''channel''],
        rows = [[Num 2024, Str ''X''], [Num 2024, Str ''Y''], [Num 2023, Str ''X'']]\<rparr>"
  have h: "\<not> ambiguous ?t ([Num 2024], ''year'')" "\<not> ambiguous ?t ([Str ''X''], ''channel'')"
    by (simp_all add: ambiguous_def)
  have c: "conjunctive_filter [([Num 2024], ''year''), ([Str ''X''], ''channel'')] ?t =
             \<lparr>columns = [''year'', ''channel''], rows = [[Num 2024, Str ''X'']]\<rparr>"
    by (simp add: conjunctive_filter_def facet_ok_def lookup_cell_def)
  note T = facets_commute [OF h]
  have e1: "and_then (apply_facet [Num 2024] ''year'' ?t) (apply_facet [Str ''X''] ''channel'') =
            and_then (apply_facet [Str ''X''] ''channel'' ?t) (apply_facet [Num 2024] ''year'')"
    using T by (rule conjunct1)
  have "and_then (apply_facet [Num 2024] ''year'' ?t) (apply_facet [Str ''X''] ''channel'') =
          Inr (conjunctive_filter [([Num 2024], ''year''), ([Str ''X''], ''channel'')] ?t)"
    using conjunct2 [OF T] by (rule conjunct1)
  then have e2: "and_then (apply_facet [Num 2024] ''year'' ?t) (apply_facet [Str ''X''] ''channel'') =
          Inr \<lparr>columns = [''year'', ''channel''], rows = [[Num 2024, Str ''X'']]\<rparr>"
    unfolding c .
  show ?thesis using e1 e2 by (rule conjI)
qed

subsection \<open>Reference scenario\<close>

lemma normalize_columns_canonical:
  assumes "set (columns cf) \<subseteq> set canonical_columns"
  shows "normalize_columns cf = cf"
proof -
  have "map (rho (columns cf)) (columns cf) = columns cf"
    using assms by (intro map_idI rho_fixed) auto
  then show ?thesis by (simp add: normalize_columns_eq)
qed

lemma reference_normalized: "normalize_columns reference_table = reference_table"
  by (rule normalize_columns_canonical) (auto simp: reference_table_def canonical_columns_def)

lemma reference_parsed:
  assumes "to_datetime P reference_dates = [Some t1, Some t2, Some t3]"
  shows "parse_published_at P reference_table =
     Inr \<lparr>columns = REQUIRED_COLUMNS,
      rows =
        [[Str ''a'', Num 100, Num 2, Num 5, Str ''X'', Ts t1],
         [Null, Num 200, Num 4, Num 15, Str ''Y'', Ts t2],
         [Str ''c'', Null, Null, Num 0, Str ''X'', Ts t3]]\<rparr>"
  using assms
  by (simp add: parse_published_at_def getitem_def lookup_cell_def setitem_def ts_cell_def
      reference_table_def reference_dates_def REQUIRED_COLUMNS_def)

lemma reference_derived:
  "derive_slicer_columns \<lparr>columns = REQUIRED_COLUMNS,
      rows =
        [[Str ''a'', Num 100, Num 2, Num 5, Str ''X'', Ts t1],
         [Null, Num 200, Num 4, Num 15, Str ''Y'', Ts t2],
         [Str ''c'', Null, Null, Num 0, Str ''X'', Ts t3]]\<rparr> = Inr (reference_loaded t1 t2 t3)"
  by (simp add: derive_slicer_columns_def derive_def getitem_def lookup_cell_def setitem_def
      reference_loaded_def REQUIRED_COLUMNS_def Annee_def)

lemma reference_coerce:
  "c \<in> {''views'', ''Taux d'engagement (%)'', ''Engagement total''} \<Longrightarrow>
     coerce P c (reference_loaded t1 t2 t3) = Inr (reference_loaded t1 t2 t3)"
  by (auto simp: coerce_def getitem_def lookup_cell_def setitem_def to_numeric_cell_def
      reference_loaded_def REQUIRED_COLUMNS_def Annee_def)

lemma reference_coerced:
  "coerce_loop P [''views'', ''Taux d'engagement (%)'', ''Engagement total'']
     (reference_loaded t1 t2 t3) = Inr (reference_loaded t1 t2 t3)"
  by (simp add: reference_coerce)

lemma reference_prepared:
  assumes "to_datetime P reference_dates = [Some t1, Some t2, Some t3]"
  shows "prepare P reference_table = Inr (reference_loaded t1 t2 t3)"
  by (simp add: prepare_def reference_normalized reference_parsed [OF assms] reference_derived
      reference_coerce)

lemma reference_slicers: "\<exists>opts. slicers (reference_loaded t1 t2 t3) = Inr opts"
  by (simp add: slicers_def facet_options_def getitem_def reference_loaded_def
      REQUIRED_COLUMNS_def Annee_def)

lemma reference_unfiltered:
  "filtered no_selection (reference_loaded t1 t2 t3) = Inr (Some (reference_loaded t1 t2 t3))"
  using reference_slicers [of t1 t2 t3]
  by (auto simp: filtered_def is_empty_def filter_block_def apply_facet_def no_selection_def
      reference_loaded_def)

lemma reference_year_2024:
  assumes "ts_year t1 = 2024" "ts_year t2 = 2024" "ts_year t3 = 2023"
  shows "filtered (no_selection\<lparr>year_sel := [Num 2024]\<rparr>) (reference_loaded t1 t2 t3) =
     Inr (Some ((reference_loaded t1 t2 t3)\<lparr>rows := take 2 (rows (reference_loaded t1 t2 t3))\<rparr>))"
proof -
  have "apply_facet [Num 2024] Annee (reference_loaded t1 t2 t3) =
     Inr ((reference_loaded t1 t2 t3)\<lparr>rows := take 2 (rows (reference_loaded t1 t2 t3))\<rparr>)"
    using assms
    by (simp add: apply_facet_def getitem_def lookup_cell_def bool_index_def isin_def dt_year_def
        reference_loaded_def REQUIRED_COLUMNS_def Annee_def)
  then show ?thesis
    using reference_slicers [of t1 t2 t3]
    by (auto simp: filtered_def is_empty_def filter_block_def no_selection_def
        apply_facet_def reference_loaded_def)
qed

lemma fmt_values:
  "fr_int (Fin 1) = ''1''" "fr_int (Fin 2) = ''2''" "fr_int (Fin 150) = ''150''"
  "fr_int (Fin 20) = ''20''" "fr_float (Fin 3) 2 = ''3,00''"
  by (simp_all add: fr_int_def fr_float_def isna_def format_comma_int_def format_comma_fixed_def
      grouped_def round_half_even_def replace_char_def digit_char_def dec_digits.simps Let_def)

lemma reference_kpis_all:
  "count_videos (reference_loaded t1 t2 t3) = Inr (Fin 2) \<and>
   avg_views (reference_loaded t1 t2 t3) = Inr (Fin 150) \<and>
   avg_engagement (reference_loaded t1 t2 t3) = Inr (Fin 3) \<and>
   total_interactions (reference_loaded t1 t2 t3) = Inr (Fin 20)"
  by (simp add: count_videos_def avg_views_def avg_engagement_def total_interactions_def
      kpi_series_def getitem_def lookup_cell_def notna_sum_def dropna_def mean_def sum_series_def
      reference_loaded_def REQUIRED_COLUMNS_def Annee_def)

lemma reference_kpis_2024:
  "count_videos ((reference_loaded t1 t2 t3)\<lparr>rows := take 2 (rows (reference_loaded t1 t2 t3))\<rparr>) = Inr (Fin 1) \<and>
   avg_views ((reference_loaded t1 t2 t3)\<lparr>rows := take 2 (rows (reference_loaded t1 t2 t3))\<rparr>) = Inr (Fin 150) \<and>
   avg_engagement ((reference_loaded t1 t2 t3)\<lparr>rows := take 2 (rows (reference_loaded t1 t2 t3))\<rparr>) = Inr (Fin 3) \<and>
   total_interactions ((reference_loaded t1 t2 t3)\<lparr>rows := take 2 (rows (reference_loaded t1 t2 t3))\<rparr>) = Inr (Fin 20)"
  by (simp add: count_videos_def avg_views_def avg_engagement_def total_interactions_def
      kpi_series_def getitem_def lookup_cell_def notna_sum_def dropna_def mean_def sum_series_def
      reference_loaded_def REQUIRED_COLUMNS_def Annee_def)

text \<open>
  C1, as amended. For the reference table, with pandas parsing the three timestamps into
  the years 2024, 2024 and 2023: without selections the cards show 2 videos, 150 average
  views, an average engagement of 3,00 % and 20 interactions; with the year filter [2024]
  the third row is dropped and the cards show 1 video, 150 average views, 3,00 % and 20
  interactions.
\<close>

theorem reference_scenario:
  assumes "endswith (lower (name f)) ''.csv''"
    and "read_csv P f = Inr reference_table"
    and "to_datetime P reference_dates = [Some t1, Some t2, Some t3]"
    and "ts_year t1 = 2024" and "ts_year t2 = 2024" and "ts_year t3 = 2023"
  shows "render P (Some f) no_selection = Inr (Cards (''2'', ''150'', ''3,00 %'', ''20'')) \<and>
         render P (Some f) (no_selection\<lparr>year_sel := [Num 2024]\<rparr>) =
           Inr (Cards (''1'', ''150'', ''3,00 %'', ''20'')) \<and>
         (\<exists>fdf. and_then (load_data P (Some f)) (filtered no_selection) = Inr (Some fdf) \<and>
            length (rows fdf) = 3 \<and>
            count_videos fdf = Inr (Fin 2) \<and> avg_views fdf = Inr (Fin 150) \<and>
            avg_engagement fdf = Inr (Fin 3) \<and> total_interactions fdf = Inr (Fin 20)) \<and>
         (\<exists>fdf. and_then (load_data P (Some f)) (filtered (no_selection\<lparr>year_sel := [Num 2024]\<rparr>))
              = Inr (Some fdf) \<and>
            length (rows fdf) = 2 \<and>
            count_videos fdf = Inr (Fin 1) \<and> avg_views fdf = Inr (Fin 150) \<and>
            avg_engagement fdf = Inr (Fin 3) \<and> total_interactions fdf = Inr (Fin 20))"
proof -
  let ?L = "reference_loaded t1 t2 t3"
  let ?F = "?L\<lparr>rows := take 2 (rows ?L)\<rparr>"
  have load: "load_data P (Some f) = Inr ?L"
    using assms(1,2) reference_prepared [OF assms(3)] by (simp add: load_data_def Let_def)
  note u = reference_unfiltered [of t1 t2 t3]
  note y = reference_year_2024 [OF assms(4,5,6)]
  note ka = reference_kpis_all [of t1 t2 t3]
  note ky = reference_kpis_2024 [of t1 t2 t3]
  have r1: "render P (Some f) no_selection = Inr (Cards (''2'', ''150'', ''3,00 %'', ''20''))"
    using ka by (simp add: render_def load u kpi_block_def fmt_values)
  have r2: "render P (Some f) (no_selection\<lparr>year_sel := [Num 2024]\<rparr>) =
           Inr (Cards (''1'', ''150'', ''3,00 %'', ''20''))"
    using ky by (simp add: render_def load y kpi_block_def fmt_values)
  have e1: "and_then (load_data P (Some f)) (filtered no_selection) = Inr (Some ?L)"
    by (simp add: load u)
  have e2: "and_then (load_data P (Some f)) (filtered (no_selection\<lparr>year_sel := [Num 2024]\<rparr>))
              = Inr (Some ?F)"
    by (simp add: load y)
  have n1: "length (rows ?L) = 3" by (simp add: reference_loaded_def)
  have n2: "length (rows ?F) = 2" by (simp add: reference_loaded_def)
  show ?thesis
    using r1 r2 e1 e2 n1 n2 ka ky by blast
qed

lemma reference_pandas_parses:
  "to_datetime reference_pandas reference_dates =
     [Some (Timestamp 2024 0 10), Some (Timestamp 2024 5 10), Some (Timestamp 2023 6 10)]"
  by (simp add: reference_pandas_def reference_dates_def reference_datetime_def)

lemma reference_upload_csv: "endswith (lower (name \<lparr>name = ''videos.csv'', payload = []\<rparr>)) ''.csv''"
  by code_simp

theorem reference_scenario_witness:
  "render reference_pandas (Some \<lparr>name = ''videos.csv'', payload = []\<rparr>) no_selection =
     Inr (Cards (''2'', ''150'', ''3,00 %'', ''20''))"
proof -
  have h: "read_csv reference_pandas \<lparr>name = ''videos.csv'', payload = []\<rparr> = Inr reference_table"
    by (simp add: reference_pandas_def)
  have y: "ts_year (Timestamp 2024 0 10) = 2024" "ts_year (Timestamp 2024 5 10) = 2024"
    "ts_year (Timestamp 2023 6 10) = 2023"
    by simp_all
  show ?thesis
    using reference_scenario [OF reference_upload_csv h reference_pandas_parses y] by blast
qed

text \<open>
  The claim as stated fails in its second half: the year filter keeps both rows of 2024, so
  the averages are still taken over 100, 200 and over 2.0, 4.0 and the total is 5 + 15; the
  cards do not show 200, 4,00 % and 15.
\<close>

theorem reference_year_filter_counterexample:
  "render reference_pandas (Some \<lparr>name = ''videos.csv'', payload = []\<rparr>)
     (no_selection\<lparr>year_sel := [Num 2024]\<rparr>) = Inr (Cards (''1'', ''150'', ''3,00 %'', ''20'')) \<and>
   render reference_pandas (Some \<lparr>name = ''videos.csv'', payload = []\<rparr>)
     (no_selection\<lparr>year_sel := [Num 2024]\<rparr>) \<noteq> Inr (Cards (''1'', ''200'', ''4,00 %'', ''15''))"
proof -
  let ?f = "\<lparr>name = ''videos.csv'', payload = []\<rparr>"
  let ?L = "reference_loaded (Timestamp 2024 0 10) (Timestamp 2024 5 10) (Timestamp 2023 6 10)"
  have "read_csv reference_pandas ?f = Inr reference_table"
    by (simp add: reference_pandas_def)
  then have load: "load_data reference_pandas (Some ?f) = Inr ?L"
    using reference_upload_csv reference_prepared [OF reference_pandas_parses]
    by (simp add: load_data_def Let_def)
  have y: "filtered (no_selection\<lparr>year_sel := [Num 2024]\<rparr>) ?L = Inr (Some (?L\<lparr>rows := take 2 (rows ?L)\<rparr>))"
    by (rule reference_year_2024) simp_all
  have "render reference_pandas (Some ?f) (no_selection\<lparr>year_sel := [Num 2024]\<rparr>) =
          Inr (Cards (''1'', ''150'', ''3,00 %'', ''20''))"
    using reference_kpis_2024 [of "Timestamp 2024 0 10" "Timestamp 2024 5 10" "Timestamp 2023 6 10"]
    by (simp add: render_def load y kpi_block_def fmt_values)
  then show ?thesis by simp
qed

end
